theory Spec2Isabelle
  imports Main
begin

section \<open>Go values shared by the packages\<close>

text \<open>
  A Go map is either the nil map or an allocated table. Reading and deleting work on
  both; storing into the nil map panics (\<open>None\<close> below).
\<close>

datatype ('k, 'v) gomap = NilMap | GoMap "'k \<rightharpoonup> 'v"

fun gm_lookup :: "('k, 'v) gomap \<Rightarrow> 'k \<Rightarrow> 'v option" where
  "gm_lookup NilMap k = None"
| "gm_lookup (GoMap m) k = m k"

fun gm_store :: "('k, 'v) gomap \<Rightarrow> 'k \<Rightarrow> 'v \<Rightarrow> ('k, 'v) gomap option" where
  "gm_store NilMap k v = None"
| "gm_store (GoMap m) k v = Some (GoMap (m(k \<mapsto> v)))"

fun gm_delete :: "('k, 'v) gomap \<Rightarrow> 'k \<Rightarrow> ('k, 'v) gomap" where
  "gm_delete NilMap k = NilMap"
| "gm_delete (GoMap m) k = GoMap (m(k := None))"

fun gm_keys :: "('k, 'v) gomap \<Rightarrow> 'k set" where
  "gm_keys NilMap = {}"
| "gm_keys (GoMap m) = dom m"

text \<open>
  A Go slice is a header (backing array, offset, length, capacity) over an array that
  lives in the store; two headers over one array see each other's writes. The store
  \<open>arrays\<close> is the list of all backing arrays allocated so far, an array's address is
  its index. The nil slice has length and capacity 0 and no backing array: nothing
  is read or written through it.
\<close>

record slice =
  arr :: nat
  off :: nat
  len :: nat
  cap :: nat

definition nil_slice :: slice where
  "nil_slice = \<lparr>arr = 0, off = 0, len = 0, cap = 0\<rparr>"

definition elems :: "'a list list \<Rightarrow> slice \<Rightarrow> 'a list" where
  "elems arrays s =
     (if len s = 0 then [] else take (len s) (drop (off s) (arrays ! arr s)))"

text \<open>\<open>s[lo:hi]\<close>; Go panics unless \<open>lo \<le> hi \<le> cap s\<close>.\<close>

definition reslice :: "slice \<Rightarrow> nat \<Rightarrow> nat \<Rightarrow> slice option" where
  "reslice s lo hi =
     (if lo \<le> hi \<and> hi \<le> cap s
      then Some \<lparr>arr = arr s, off = off s + lo, len = hi - lo, cap = cap s - lo\<rparr>
      else None)"

definition write_at :: "'a list \<Rightarrow> nat \<Rightarrow> 'a list \<Rightarrow> 'a list" where
  "write_at cells pos xs = take pos cells @ xs @ drop (pos + length xs) cells"

text \<open>
  \<open>append(s, xs...)\<close>: when the values fit into the capacity they are written into the
  backing array in place (after the values were read, as memmove does for overlapping
  ranges) and only the returned header is longer; otherwise a new array is allocated.
  Go leaves the capacity of the new array to the runtime ("sufficiently large"); the
  model allocates exactly the cells needed.
\<close>

definition append_go :: "'a list list \<Rightarrow> slice \<Rightarrow> 'a list \<Rightarrow> slice \<times> 'a list list" where
  "append_go arrays s xs =
     (if xs = [] then (s, arrays)
      else if len s + length xs \<le> cap s
      then (s\<lparr>len := len s + length xs\<rparr>,
            arrays[arr s := write_at (arrays ! arr s) (off s + len s) xs])
      else (\<lparr>arr = length arrays, off = 0, len = len s + length xs, cap = len s + length xs\<rparr>,
            arrays @ [elems arrays s @ xs]))"

text \<open>A call either returns or panics.\<close>

datatype 'a outcome = Returned 'a | Panicked

section \<open>Package event: the bus\<close>

datatype bus_error =
  ErrPublishTimeout
| ErrChannelNotFound
| ErrChannelClosed
| ErrChannelSubscriberNotFound
| ErrChannelSubscriberAlreadyExists

text \<open>
  Channels made by \<open>make(chan ...)\<close> and contexts made by \<open>context.WithCancel\<close> are
  identified by the order of their creation. A subscriber's \<open>cancel\<close> is the cancel
  function of its context. The field \<open>id\<close> of the source is \<open>sid\<close> here, and the local variable
  \<open>id\<close> of Subscribe and Unsubscribe is \<open>rid\<close> (\<open>id\<close> is HOL's identity function).
\<close>

record 'd event =
  payload :: 'd
  reply :: nat
  error :: nat

record subscriber =
  sid :: string
  ch :: nat
  cancel :: nat

record bus =
  subscribers :: "(string, slice) gomap"
  ids :: "(string, unit) gomap"

text \<open>
  The model is sequential: one call of the bus runs at a time. The mutex \<open>bus.sync\<close>,
  which every path that locks it unlocks on return (\<open>defer\<close>), is then free at every
  call and is not part of the state. Tasks started with \<open>go\<close> are recorded when they
  are started and are not run. A pointer that the code does not compare with nil is
  modelled by what it points to.

  What a call does beyond the bus tables is recorded, in order, as effects:
  a call of the reply handler's \<open>consume\<close> with its four arguments, the start of a
  delivery task (\<open>go func\<close> in Publish: hand the event to the channel or, after
  \<open>replyTimeout\<close>, send ErrPublishTimeout on the event's error channel), the start of a
  worker task (\<open>go func\<close> in Subscribe) and a call of a cancel function.
\<close>

datatype 'd effect =
  Consume nat "nat option" "nat option" "bus_error option" nat
| Deliver nat "'d event"
| Worker nat nat string
| Cancel nat

record 'd world =
  arrays :: "subscriber list list"
  chans :: nat
  ctxs :: nat
  trace :: "'d effect list"

definition Millisecond :: nat where
  "Millisecond = 1000000"

definition publishTimeout :: nat where
  "publishTimeout = 25 * Millisecond"

definition replyTimeout :: nat where
  "replyTimeout = 25 * Millisecond"

definition make_chan :: "'d world \<Rightarrow> nat \<times> 'd world" where
  "make_chan w = (chans w, w\<lparr>chans := Suc (chans w)\<rparr>)"

definition with_cancel :: "'d world \<Rightarrow> nat \<times> 'd world" where
  "with_cancel w = (ctxs w, w\<lparr>ctxs := Suc (ctxs w)\<rparr>)"

definition perform :: "'d effect \<Rightarrow> 'd world \<Rightarrow> 'd world" where
  "perform e w = w\<lparr>trace := trace w @ [e]\<rparr>"

text \<open>
  The body of the loop of Publish, for the subscribers still to visit. The handler is
  \<open>None\<close> for a nil handler.
\<close>

fun publish_loop :: "nat option \<Rightarrow> 'd \<Rightarrow> subscriber list \<Rightarrow> 'd world \<Rightarrow> 'd world" where
  "publish_loop handler data [] w = w"
| "publish_loop handler data (evChannel # rest) w =
     (let (r, w1) = make_chan w;
          (e, w2) = make_chan w1;
          event = \<lparr>payload = data, reply = r, error = e\<rparr>;
          w3 = perform (Deliver (ch evChannel) event) w2;
          w4 = (case handler of
                  None \<Rightarrow> w3
                | Some h \<Rightarrow> perform (Consume h (Some (reply event)) (Some (error event)) None replyTimeout) w3)
      in publish_loop handler data rest w4)"

definition Publish :: "bus \<Rightarrow> 'd world \<Rightarrow> string \<Rightarrow> 'd \<Rightarrow> nat option \<Rightarrow> bus \<times> 'd world" where
  "Publish bus w channel data handler =
     (case gm_lookup (subscribers bus) channel of
        None \<Rightarrow>
          (case handler of
             None \<Rightarrow> (bus, w)
           | Some h \<Rightarrow> (bus, perform (Consume h None None (Some ErrChannelNotFound) 0) w))
      | Some evChannels \<Rightarrow>
          (bus, publish_loop handler data (elems (arrays w) evChannels) w))"

text \<open>
  The registration id: \<open>fmt.Sprintf("%s:%s", channel, name)\<close>, where \<open>name\<close> is the
  name Go's runtime gives the consumer function. A consumer is modelled by that name,
  which is all the bus reads of it.
\<close>

definition subscriber_id :: "string \<Rightarrow> string \<Rightarrow> string" where
  "subscriber_id channel handler = channel @ '':'' @ handler"

definition Subscribe ::
  "bus \<Rightarrow> 'd world \<Rightarrow> string \<Rightarrow> string \<Rightarrow> bus_error option outcome \<times> bus \<times> 'd world" where
  "Subscribe bus w channel handler =
     (let (c, w1) = make_chan w;
          (cnl, w2) = with_cancel w1;
          w3 = perform (Worker c cnl handler) w2;
          rid = subscriber_id channel handler
      in case gm_lookup (ids bus) rid of
           Some _ \<Rightarrow> (Returned (Some ErrChannelSubscriberAlreadyExists), bus, w3)
         | None \<Rightarrow>
             (let old = (case gm_lookup (subscribers bus) channel of
                           None \<Rightarrow> nil_slice
                         | Some s \<Rightarrow> s);
                  (new, arrays') = append_go (arrays w3) old [\<lparr>sid = rid, ch = c, cancel = cnl\<rparr>];
                  w4 = w3\<lparr>arrays := arrays'\<rparr>
              in case gm_store (subscribers bus) channel new of
                   None \<Rightarrow> (Panicked, bus, w4)
                 | Some subscribers' \<Rightarrow>
                     (let bus1 = bus\<lparr>subscribers := subscribers'\<rparr>
                      in case gm_store (ids bus1) rid () of
                           None \<Rightarrow> (Panicked, bus1, w4)
                         | Some ids' \<Rightarrow> (Returned None, bus1\<lparr>ids := ids'\<rparr>, w4))))"

text \<open>
  \<open>for i, sbcr := range sub\<close> up to the first registration whose id matches: its index
  and the registration, or \<open>None\<close> when the loop runs to its end.
\<close>

fun find_subscriber :: "string \<Rightarrow> subscriber list \<Rightarrow> nat \<Rightarrow> (nat \<times> subscriber) option" where
  "find_subscriber rid [] i = None"
| "find_subscriber rid (sbcr # rest) i =
     (if sid sbcr = rid then Some (i, sbcr) else find_subscriber rid rest (Suc i))"

text \<open>
  Unsubscribe. \<open>sub\<close> is the function's own copy of the header stored in the table:
  \<open>sub = append(sub[:i], sub[i+1:]...)\<close> moves the later registrations down inside the
  shared backing array and shortens the local header only; the function stores nothing
  back into \<open>bus.subscribers[channel]\<close>.
\<close>

definition Unsubscribe ::
  "bus \<Rightarrow> 'd world \<Rightarrow> string \<Rightarrow> string \<Rightarrow> bus_error option outcome \<times> bus \<times> 'd world" where
  "Unsubscribe bus w channel handler =
     (case gm_lookup (subscribers bus) channel of
        None \<Rightarrow> (Returned (Some ErrChannelNotFound), bus, w)
      | Some sub \<Rightarrow>
          (let rid = subscriber_id channel handler
           in case find_subscriber rid (elems (arrays w) sub) 0 of
                None \<Rightarrow> (Returned (Some ErrChannelSubscriberNotFound), bus, w)
              | Some (i, sbcr) \<Rightarrow>
                  (let w1 = perform (Cancel (cancel sbcr)) w
                   in case (reslice sub 0 i, reslice sub (i + 1) (len sub)) of
                        (Some front, Some back) \<Rightarrow>
                          (let (sub', arrays') = append_go (arrays w1) front (elems (arrays w1) back);
                               w2 = w1\<lparr>arrays := arrays'\<rparr>;
                               bus1 = bus\<lparr>ids := gm_delete (ids bus) rid\<rparr>;
                               bus2 = (if len sub' = 0
                                       then bus1\<lparr>subscribers := gm_delete (subscribers bus1) channel\<rparr>
                                       else bus1)
                           in (Returned None, bus2, w2))
                      | _ \<Rightarrow> (Panicked, bus, w1))))"

text \<open>The registrations a channel holds, as Publish and Unsubscribe read them.\<close>

definition registrations :: "bus \<Rightarrow> 'd world \<Rightarrow> string \<Rightarrow> subscriber list" where
  "registrations bus w channel =
     (case gm_lookup (subscribers bus) channel of
        None \<Rightarrow> []
      | Some s \<Rightarrow> elems (arrays w) s)"

section \<open>Package kernel: the lifecycle of the services\<close>

text \<open>
  A Go \<open>error\<close> of the kernel is modelled by its message; \<open>None\<close> is \<open>nil\<close>.
\<close>

type_synonym go_error = string

text \<open>
  Modelled from the spec: the declaration of \<open>types.StateType\<close> is not among the
  sources; the spec calls the states bit flags, and the sources give the five values
  below. The zero value of the type is 0.
\<close>

type_synonym StateType = nat

record states =
  Started :: StateType
  Idle :: StateType
  Working :: StateType
  Stopped :: StateType
  Panic :: StateType

definition States :: states where
  "States = \<lparr>Started = 0x1, Idle = 0x2, Working = 0x4, Stopped = 0x8, Panic = 0x10\<rparr>"

text \<open>
  Modelled from the spec: the notification types are not among the sources. A
  notification has a source identity and a content, which is a command, data or error
  object or anything else; the string stands for what the object holds. The first
  three constructors are the three pointer types of the type switch in
  \<open>defaultNotificationHandler\<close>, \<open>UnknownObject\<close> is every other content.
\<close>

datatype object =
  CommandObject string
| DataObject string
| ErrorObject string
| UnknownObject string

record notification =
  From :: string
  Content :: object

text \<open>
  The entity names \<open>constant.EntityNames.Core\<close> and
  \<open>constant.EntityNames.Services.Module\<close> are not among the sources and the spec does
  not give their values: they are parameters.
\<close>

record entity_names =
  Core :: string
  Services_Module :: string

text \<open>
  Modelled from the spec: the configuration object is not among the sources; it
  answers whether it was loaded, and its content is opaque to the kernel.
\<close>

record properties =
  IsLoaded :: bool

datatype log_message = InfoStartServices | InfoServicesStarted nat

text \<open>The predicates handed to \<open>checkIf\<close>; each stands for the hook that was called.\<close>

datatype check = IsStarted | IsConfigured | IsProcessed | IsStopped

text \<open>
  The struct Core. The logger and the notification queue are references (a number
  each); \<open>None\<close> is nil. The field \<open>properties\<close> is never assigned by the sources.
\<close>

record 's core =
  services :: "'s list"
  logger :: "nat option"
  properties :: "properties option"
  notifications :: "nat option"
  internal :: "go_error option"
  state :: StateType

definition new_core :: "'s core" where
  "new_core = \<lparr>services = [], logger = None, properties = None, notifications = None,
                internal = None, state = 0\<rparr>"

text \<open>
  The collaborators of the kernel act on a world \<open>'w\<close> that the kernel does not look
  into; a call of a collaborator returns (a hook that panics or never returns is not
  modelled): the services behind their four hooks, the logger, the notification queue
  (\<open>NewNotificationQueue\<close>, and \<open>Notifications\<close>, which drains the entries of one
  destination) and \<open>Core.handle\<close>, which is not among the sources (spec 4.3: it routes
  a drained notification to the bus; it is called for its effect, its result is
  dropped).
\<close>

record ('s, 'w) env =
  EntityNames :: entity_names
  NewNotificationQueue :: "'w \<Rightarrow> nat \<times> 'w"
  logger_Info :: "nat \<Rightarrow> log_message \<Rightarrow> 'w \<Rightarrow> 'w"
  service_Start :: "'s \<Rightarrow> nat option \<Rightarrow> nat \<Rightarrow> 'w \<Rightarrow> go_error option \<times> 'w"
  service_Configure :: "'s \<Rightarrow> properties \<Rightarrow> 'w \<Rightarrow> go_error option \<times> 'w"
  service_Process :: "'s \<Rightarrow> 'w \<Rightarrow> go_error option \<times> 'w"
  service_Stop :: "'s \<Rightarrow> 'w \<Rightarrow> go_error option \<times> 'w"
  Notifications :: "nat option \<Rightarrow> string \<Rightarrow> 'w \<Rightarrow> notification list \<times> 'w"
  core_handle :: "notification \<Rightarrow> 'w \<Rightarrow> 'w"

text \<open>A hook call the kernel made: the hook, the service and what the hook returned.\<close>

datatype 's call = Call check 's "go_error option"

text \<open>
  Modelled from the spec: \<open>Core.checkIf\<close> and the four predicates are not among the
  sources. Spec 4.2 and 7: Configure and Run go on after a hook that succeeds; after
  a hook that fails they return that error, and Stop, after a hook that succeeds,
  returns that service's error; each time the method returns \<open>core.internal\<close>. So the
  check answers whether the hook returned no error, and it leaves in \<open>core.internal\<close>
  what the hook returned. The spec says nothing of the predicates: they do not enter
  the answer.
\<close>

definition checkIf :: "'s core \<Rightarrow> 's \<Rightarrow> go_error option \<Rightarrow> check \<Rightarrow> bool \<times> 's core" where
  "checkIf core s err pred = (err = None, core\<lparr>internal := err\<rparr>)"

text \<open>
  The loops of Configure, Run and Stop over the services still to visit. The first
  component of the result tells whether the loop ran to its end (\<open>False\<close>: it was left
  by \<open>return core.internal\<close>); the last is the list of hook calls made so far.
\<close>

fun configure_loop ::
  "('s, 'w) env \<Rightarrow> properties \<Rightarrow> nat \<Rightarrow> 's list \<Rightarrow> 's core \<times> 'w \<times> 's call list
     \<Rightarrow> bool \<times> 's core \<times> 'w \<times> 's call list" where
  "configure_loop env props lg [] k = (True, k)"
| "configure_loop env props lg (s # ss) (core, w, calls) =
     (let (r1, w1) = service_Start env s (notifications core) lg w;
          (ok1, core1) = checkIf core s r1 IsStarted;
          calls1 = calls @ [Call IsStarted s r1]
      in if \<not> ok1 then (False, core1, w1, calls1)
         else (let (r2, w2) = service_Configure env s props w1;
                   (ok2, core2) = checkIf core1 s r2 IsConfigured;
                   calls2 = calls1 @ [Call IsConfigured s r2]
               in if \<not> ok2 then (False, core2, w2, calls2)
                  else configure_loop env props lg ss (core2, w2, calls2)))"

definition Configure ::
  "('s, 'w) env \<Rightarrow> 's core \<Rightarrow> 'w \<Rightarrow> 's list \<Rightarrow> properties \<Rightarrow> nat
     \<Rightarrow> go_error option \<times> 's core \<times> 'w \<times> 's call list" where
  "Configure env core w svcs props lg =
     (if \<not> IsLoaded props then (Some ''properties not loaded'', core, w, [])
      else (let core1 = core\<lparr>services := svcs, logger := Some lg\<rparr>;
                (q, w1) = NewNotificationQueue env w;
                core2 = core1\<lparr>notifications := Some q, internal := None\<rparr>;
                w2 = logger_Info env lg InfoStartServices w1;
                (completed, core3, w3, calls) = configure_loop env props lg svcs (core2, w2, [])
            in if \<not> completed then (internal core3, core3, w3, calls)
               else (None, core3\<lparr>state := Idle States\<rparr>,
                     logger_Info env lg (InfoServicesStarted (length svcs)) w3, calls)))"

fun run_loop ::
  "('s, 'w) env \<Rightarrow> 's list \<Rightarrow> 's core \<times> 'w \<times> 's call list
     \<Rightarrow> bool \<times> 's core \<times> 'w \<times> 's call list" where
  "run_loop env [] k = (True, k)"
| "run_loop env (s # ss) (core, w, calls) =
     (let (r, w1) = service_Process env s w;
          (ok, core1) = checkIf core s r IsProcessed;
          calls1 = calls @ [Call IsProcessed s r]
      in if \<not> ok then (False, core1, w1, calls1)
         else (let (ns, w2) = Notifications env (notifications core1) (Core (EntityNames env)) w1;
                   w3 = fold (core_handle env) ns w2
               in run_loop env ss (core1, w3, calls1)))"

definition Run ::
  "('s, 'w) env \<Rightarrow> 's core \<Rightarrow> 'w \<Rightarrow> go_error option \<times> 's core \<times> 'w \<times> 's call list" where
  "Run env core w =
     (let core1 = core\<lparr>state := Working States\<rparr>;
          (completed, core2, w1, calls) = run_loop env (services core1) (core1, w, [])
      in if \<not> completed then (internal core2, core2, w1, calls)
         else (None, core2\<lparr>state := Idle States\<rparr>, w1, calls))"

fun stop_loop ::
  "('s, 'w) env \<Rightarrow> 's list \<Rightarrow> 's core \<times> 'w \<times> 's call list
     \<Rightarrow> bool \<times> 's core \<times> 'w \<times> 's call list" where
  "stop_loop env [] k = (True, k)"
| "stop_loop env (s # ss) (core, w, calls) =
     (let (r, w1) = service_Stop env s w;
          (ok, core1) = checkIf core s r IsStopped;
          calls1 = calls @ [Call IsStopped s r]
      in if ok then (False, core1, w1, calls1)
         else stop_loop env ss (core1, w1, calls1))"

definition Stop ::
  "('s, 'w) env \<Rightarrow> 's core \<Rightarrow> 'w \<Rightarrow> go_error option \<times> 's core \<times> 'w \<times> 's call list" where
  "Stop env core w =
     (let (completed, core1, w1, calls) = stop_loop env (services core) (core, w, [])
      in if \<not> completed then (internal core1, core1, w1, calls)
         else (None, core1\<lparr>state := Stopped States\<rparr>, w1, calls))"

definition State :: "'s core \<Rightarrow> StateType" where
  "State core = state core"

text \<open>A caller of the kernel: a sequence of calls of its three lifecycle methods.\<close>

datatype 's api_call = CallConfigure "'s list" properties nat | CallRun | CallStop

fun api ::
  "('s, 'w) env \<Rightarrow> 's api_call \<Rightarrow> 's core \<Rightarrow> 'w \<Rightarrow> go_error option \<times> 's core \<times> 'w \<times> 's call list" where
  "api env (CallConfigure svcs props lg) core w = Configure env core w svcs props lg"
| "api env CallRun core w = Run env core w"
| "api env CallStop core w = Stop env core w"

text \<open>The calls in order; the result lists what each call returned.\<close>

fun api_calls ::
  "('s, 'w) env \<Rightarrow> 's api_call list \<Rightarrow> 's core \<times> 'w \<Rightarrow> go_error option list \<times> 's core \<times> 'w" where
  "api_calls env [] (core, w) = ([], core, w)"
| "api_calls env (c # cs) (core, w) =
     (let (r, core1, w1, calls) = api env c core w;
          (rs, core2, w2) = api_calls env cs (core1, w1)
      in (r # rs, core2, w2))"

section \<open>Package network: routing of notifications\<close>

text \<open>
  Modelled from the spec: package \<open>log\<close> is not among the sources. A logger takes
  leveled messages with a structured context (spec 6): an argument binder is a
  message, the arguments bound to it (\<open>Bind\<close>) and key/value pairs (\<open>More\<close>).
\<close>

datatype level = DebugLevel | InfoLevel | WarnLevel

datatype logged = LoggedNotification notification | LoggedContent object

record argument_binder =
  message :: string
  bound :: "string list"
  context_pairs :: "(string \<times> logged) list"

definition NewArgumentBinder :: "string \<Rightarrow> argument_binder" where
  "NewArgumentBinder m = \<lparr>message = m, bound = [], context_pairs = []\<rparr>"

definition Bind :: "argument_binder \<Rightarrow> string list \<Rightarrow> argument_binder" where
  "Bind b args = b\<lparr>bound := bound b @ args\<rparr>"

definition More :: "argument_binder \<Rightarrow> string \<Rightarrow> logged \<Rightarrow> argument_binder" where
  "More b k v = b\<lparr>context_pairs := context_pairs b @ [(k, v)]\<rparr>"

definition DebugNotificationHandled :: argument_binder where
  "DebugNotificationHandled = NewArgumentBinder ''notification handled''"

definition UnhandledNotificationOrigin :: argument_binder where
  "UnhandledNotificationOrigin = NewArgumentBinder ''unhandled notification origin (%s)''"

definition UnknownContentType :: argument_binder where
  "UnknownContentType = NewArgumentBinder ''unknown content type''"

text \<open>
  Modelled from the spec: the struct Service of package network is not among the
  sources. The model keeps what the routing acts on: what its logger has been given,
  the Publish calls made on the bus (channel and payload, in order) and, for
  \<open>emit\<close>, which channels have a registration.
\<close>

record service =
  logged :: "(level \<times> argument_binder) list"
  published :: "(string \<times> object) list"
  registered :: "string \<Rightarrow> bool"

definition logger_Debug :: "service \<Rightarrow> argument_binder \<Rightarrow> service" where
  "logger_Debug service b = service\<lparr>logged := logged service @ [(DebugLevel, b)]\<rparr>"

definition logger_Warn :: "service \<Rightarrow> argument_binder \<Rightarrow> service" where
  "logger_Warn service b = service\<lparr>logged := logged service @ [(WarnLevel, b)]\<rparr>"

text \<open>
  Modelled from the spec: the channel names \<open>constant.Channels\<close> are not among the
  sources; spec 6 gives the three names used by the routing.
\<close>

definition Channels_Command :: string where
  "Channels_Command = ''Command''"

definition Channels_Data :: string where
  "Channels_Data = ''Data''"

definition Channels_Error :: string where
  "Channels_Error = ''Error''"

text \<open>
  Modelled from the spec: \<open>Service.emit\<close> is not among the sources. Spec 4.3 and the
  glossary: routing a notification is one Publish call on the bus, on the given channel;
  the step fails when the channel has no registration.
\<close>

definition emit :: "service \<Rightarrow> string \<Rightarrow> object \<Rightarrow> bool \<times> service" where
  "emit service channel obj =
     (registered service channel, service\<lparr>published := published service @ [(channel, obj)]\<rparr>)"

definition defaultNotificationHandler :: "service \<Rightarrow> notification \<Rightarrow> go_error option \<times> service" where
  "defaultNotificationHandler service n =
     (let (succeed, service1) =
            (case Content n of
               CommandObject x \<Rightarrow> emit service Channels_Command (CommandObject x)
             | DataObject x \<Rightarrow> emit service Channels_Data (DataObject x)
             | ErrorObject x \<Rightarrow> emit service Channels_Error (ErrorObject x)
             | UnknownObject x \<Rightarrow>
                 (True, logger_Warn service
                          (More UnknownContentType ''packet'' (LoggedContent (Content n)))))
      in if \<not> succeed then (Some ''failed to emit message'', service1) else (None, service1))"

definition handle :: "entity_names \<Rightarrow> service \<Rightarrow> notification \<Rightarrow> go_error option \<times> service" where
  "handle names service n =
     (let service1 = logger_Debug service
                       (More DebugNotificationHandled ''notification'' (LoggedNotification n))
      in if From n = Services_Module names \<or> From n = Core names
         then defaultNotificationHandler service1 n
         else (None, logger_Warn service1
                       (More (Bind UnhandledNotificationOrigin [From n])
                          ''content'' (LoggedContent (Content n)))))"

section \<open>Observations and sample states\<close>

text \<open>What a call added to the trace, and the calls of the handler and the deliveries in it.\<close>

definition effects_since :: "'d world \<Rightarrow> 'd world \<Rightarrow> 'd effect list" where
  "effects_since w w' = drop (length (trace w)) (trace w')"

fun is_Consume :: "'d effect \<Rightarrow> bool" where
  "is_Consume (Consume h r e err t) = True"
| "is_Consume _ = False"

fun is_Deliver :: "'d effect \<Rightarrow> bool" where
  "is_Deliver (Deliver c e) = True"
| "is_Deliver _ = False"

definition handler_calls :: "'d effect list \<Rightarrow> 'd effect list" where
  "handler_calls es = filter is_Consume es"

definition deliveries :: "'d effect list \<Rightarrow> 'd effect list" where
  "deliveries es = filter is_Deliver es"

text \<open>
  What Publish does for the subscriber at index \<open>i\<close> when \<open>c\<close> channels existed before
  the call: it makes the event's two channels, starts the delivery and calls the handler.
\<close>

definition visit :: "nat \<Rightarrow> 'd \<Rightarrow> nat \<Rightarrow> subscriber list \<Rightarrow> nat \<Rightarrow> 'd effect list" where
  "visit h data c regs i =
     [Deliver (ch (regs ! i)) \<lparr>payload = data, reply = c + 2 * i, error = c + 2 * i + 1\<rparr>,
      Consume h (Some (c + 2 * i)) (Some (c + 2 * i + 1)) None replyTimeout]"

text \<open>
  A slice header fits the store when its capacity lies inside its backing array; Go
  keeps this for every slice value. \<open>wf_channel\<close> says it of the header a channel has
  in the table.
\<close>

definition wf_slice :: "'a list list \<Rightarrow> slice \<Rightarrow> bool" where
  "wf_slice arrs s =
     (len s \<le> cap s \<and>
      (cap s = 0 \<or> (arr s < length arrs \<and> off s + cap s \<le> length (arrs ! arr s))))"

definition wf_channel :: "bus \<Rightarrow> 'd world \<Rightarrow> string \<Rightarrow> bool" where
  "wf_channel bus w channel =
     (case gm_lookup (subscribers bus) channel of
        None \<Rightarrow> True
      | Some s \<Rightarrow> wf_slice (arrays w) s)"

text \<open>Every channel of the table holds at least one registration.\<close>

definition no_empty_channel :: "bus \<Rightarrow> bool" where
  "no_empty_channel bus = (\<forall>channel s. gm_lookup (subscribers bus) channel = Some s \<longrightarrow> 0 < len s)"

text \<open>
  The bus with allocated, empty tables; the bus after \<open>Subscribe("c", A)\<close> on it; and
  the bus after \<open>Subscribe("c", B)\<close> on that one (lemmas \<open>Subscribe_one\<close>, \<open>Subscribe_two\<close>).
\<close>

definition empty_bus :: bus where
  "empty_bus = \<lparr>subscribers = GoMap Map.empty, ids = GoMap Map.empty\<rparr>"

definition empty_world :: "'d world" where
  "empty_world = \<lparr>arrays = [], chans = 0, ctxs = 0, trace = []\<rparr>"

definition one_bus :: bus where
  "one_bus = \<lparr>subscribers = GoMap [''c'' \<mapsto> \<lparr>arr = 0, off = 0, len = 1, cap = 1\<rparr>],
               ids = GoMap [''c:A'' \<mapsto> ()]\<rparr>"

definition one_world :: "string world" where
  "one_world = \<lparr>arrays = [[\<lparr>sid = ''c:A'', ch = 0, cancel = 0\<rparr>]],
                 chans = 1, ctxs = 1, trace = [Worker 0 0 ''A'']\<rparr>"

definition two_bus :: bus where
  "two_bus = \<lparr>subscribers = GoMap [''c'' \<mapsto> \<lparr>arr = 1, off = 0, len = 2, cap = 2\<rparr>],
               ids = GoMap [''c:A'' \<mapsto> (), ''c:B'' \<mapsto> ()]\<rparr>"

definition two_world :: "string world" where
  "two_world = \<lparr>arrays = [[\<lparr>sid = ''c:A'', ch = 0, cancel = 0\<rparr>],
                          [\<lparr>sid = ''c:A'', ch = 0, cancel = 0\<rparr>,
                           \<lparr>sid = ''c:B'', ch = 1, cancel = 1\<rparr>]],
                 chans = 2, ctxs = 2, trace = [Worker 0 0 ''A'', Worker 1 1 ''B'']\<rparr>"

text \<open>
  The bus with the registrations of A and B after \<open>Unsubscribe("c", A)\<close> and then
  \<open>Unsubscribe("c", B)\<close>.
\<close>

definition drained :: "bus \<times> string world" where
  "drained = (let (r1, b1, w1) = Unsubscribe two_bus two_world ''c'' ''A'';
                  (r2, b2, w2) = Unsubscribe b1 w1 ''c'' ''B''
              in (b2, w2))"

text \<open>
  The world after the Stop hook of a service, and the world after one round of Run on
  a service: its Process hook, then the drain of the queue \<open>q\<close> for the core and the
  handling of each drained notification.
\<close>

definition stopped :: "('s, 'w) env \<Rightarrow> 's \<Rightarrow> 'w \<Rightarrow> 'w" where
  "stopped env s w = snd (service_Stop env s w)"

definition processed :: "('s, 'w) env \<Rightarrow> nat option \<Rightarrow> 's \<Rightarrow> 'w \<Rightarrow> 'w" where
  "processed env q s w =
     (case Notifications env q (Core (EntityNames env)) (snd (service_Process env s w)) of
        (ns, w') \<Rightarrow> fold (core_handle env) ns w')"

text \<open>
  The calls of the Stop hooks of the first \<open>n\<close> services, each made in the world the
  hooks before it left, with what each returned.
\<close>

definition stop_calls :: "('s, 'w) env \<Rightarrow> 's list \<Rightarrow> 'w \<Rightarrow> nat \<Rightarrow> 's call list" where
  "stop_calls env ss w n =
     map (\<lambda>i. Call IsStopped (ss ! i) (fst (service_Stop env (ss ! i) (fold (stopped env) (take i ss) w))))
       [0..<n]"

text \<open>
  Sample services: each is a name and what its four hooks return. In \<open>stub_env\<close> the
  hooks answer from the service itself, the queue is always empty and the logger and
  \<open>Core.handle\<close> do nothing.
\<close>

record stub =
  name :: string
  on_Start :: "go_error option"
  on_Configure :: "go_error option"
  on_Process :: "go_error option"
  on_Stop :: "go_error option"

definition stub_env :: "(stub, unit) env" where
  "stub_env =
     \<lparr>EntityNames = \<lparr>Core = ''core'', Services_Module = ''module''\<rparr>,
      NewNotificationQueue = (\<lambda>w. (0, w)),
      logger_Info = (\<lambda>lg m w. w),
      service_Start = (\<lambda>s q lg w. (on_Start s, w)),
      service_Configure = (\<lambda>s props w. (on_Configure s, w)),
      service_Process = (\<lambda>s w. (on_Process s, w)),
      service_Stop = (\<lambda>s w. (on_Stop s, w)),
      Notifications = (\<lambda>q dest w. ([], w)),
      core_handle = (\<lambda>n w. w)\<rparr>"

definition svcA :: stub where
  "svcA = \<lparr>name = ''a'', on_Start = None, on_Configure = None, on_Process = None,
            on_Stop = Some ''a: stop failed''\<rparr>"

definition svcB :: stub where
  "svcB = \<lparr>name = ''b'', on_Start = None, on_Configure = None,
            on_Process = Some ''b: process failed'', on_Stop = None\<rparr>"

definition svcC :: stub where
  "svcC = \<lparr>name = ''c'', on_Start = None, on_Configure = None, on_Process = None,
            on_Stop = Some ''c: stop failed''\<rparr>"

definition svcD :: stub where
  "svcD = \<lparr>name = ''d'', on_Start = Some ''d: start failed'', on_Configure = None,
            on_Process = Some ''d: process failed'', on_Stop = None\<rparr>"

text \<open>The kernel after a successful Configure of the services a, b and c (lemma \<open>Configure_abc\<close>).\<close>

definition abc_core :: "stub core" where
  "abc_core = \<lparr>services = [svcA, svcB, svcC], logger = Some 0, properties = None,
                notifications = Some 0, internal = None, state = Idle States\<rparr>"

text \<open>The warnings among what the logger of the network service was given.\<close>

definition warnings :: "service \<Rightarrow> (level \<times> argument_binder) list" where
  "warnings service = filter (\<lambda>entry. fst entry = WarnLevel) (logged service)"

definition demo_names :: entity_names where
  "demo_names = \<lparr>Core = ''core'', Services_Module = ''module''\<rparr>"

definition demo_service :: service where
  "demo_service = \<lparr>logged = [], published = [], registered = (\<lambda>channel. channel = ''Data'')\<rparr>"

section \<open>Go maps and slices\<close>

lemma gm_lookup_store:
  "gm_store m k v = Some m' \<Longrightarrow> gm_lookup m' k' = (if k' = k then Some v else gm_lookup m k')"
  by (cases m) auto

lemma gm_keys_store: "gm_store m k v = Some m' \<Longrightarrow> gm_keys m' = insert k (gm_keys m)"
  by (cases m) auto

lemma gm_store_allocated: "gm_store m k v = Some m' \<Longrightarrow> \<exists>t. m' = GoMap t"
  by (cases m) auto

lemma gm_lookup_keys: "gm_lookup m k = None \<longleftrightarrow> k \<notin> gm_keys m"
  by (cases m) auto

lemma gm_lookup_delete: "gm_lookup (gm_delete m k) k' = (if k' = k then None else gm_lookup m k')"
  by (cases m) auto

lemma wf_nil_slice: "wf_slice arrs nil_slice"
  by (simp add: wf_slice_def nil_slice_def)

lemma elems_nil_slice: "elems arrs nil_slice = []"
  by (simp add: elems_def nil_slice_def)

lemma length_elems: "wf_slice arrs s \<Longrightarrow> length (elems arrs s) = len s"
  by (auto simp: wf_slice_def elems_def)

lemma len_append_go: "append_go arrs s xs = (s', arrs') \<Longrightarrow> len s' = len s + length xs"
  by (auto simp: append_go_def split: if_splits)

text \<open>Through a header that fits the store, \<open>append\<close> is list append.\<close>

lemma elems_append_go:
  assumes "wf_slice arrs s" and "append_go arrs s xs = (s', arrs')"
  shows "elems arrs' s' = elems arrs s @ xs"
proof (cases "xs = []")
  case True
  with assms show ?thesis by (simp add: append_go_def)
next
  case False
  show ?thesis
  proof (cases "len s + length xs \<le> cap s")
    case True
    with False assms have c: "arr s < length arrs" "off s + cap s \<le> length (arrs ! arr s)"
      by (auto simp: wf_slice_def)
    from True False assms(2) have s': "s' = s\<lparr>len := len s + length xs\<rparr>"
      and a': "arrs' = arrs[arr s := write_at (arrs ! arr s) (off s + len s) xs]"
      by (auto simp: append_go_def)
    show ?thesis using c True False
      by (auto simp: s' a' elems_def write_at_def drop_take)
  next
    case no: False
    with False assms(2) show ?thesis
      by (auto simp: append_go_def elems_def)
  qed
qed

lemma elems_back:
  assumes "wf_slice arrs s" and "i < len s"
  shows "elems arrs \<lparr>arr = arr s, off = off s + (i + 1), len = len s - (i + 1), cap = cap s - (i + 1)\<rparr> =
           drop (Suc i) (elems arrs s)"
  using assms by (auto simp: elems_def wf_slice_def drop_take add.commute)

text \<open>
  Moving the registrations after index \<open>i\<close> down in place, as seen through a header
  that keeps its length: the registration at \<open>i\<close> is overwritten and the last one is
  there twice.
\<close>

lemma elems_after_removal:
  assumes wf: "wf_slice arrs s" and i: "i < len s"
  defines "regs \<equiv> elems arrs s"
  defines "arrs' \<equiv> arrs[arr s := write_at (arrs ! arr s) (off s + i) (drop (Suc i) regs)]"
  shows "elems arrs' s = take i regs @ drop (Suc i) regs @ [last regs]"
proof -
  let ?A = "arrs ! arr s"
  from wf i have pos: "0 < len s" and a: "arr s < length arrs" and fit: "off s + len s \<le> length ?A"
    by (auto simp: wf_slice_def)
  have regs: "regs = take (len s) (drop (off s) ?A)"
    using pos by (simp add: regs_def elems_def)
  have lr: "length regs = len s" using fit by (simp add: regs)
  define pre where "pre = take (off s) ?A"
  define post where "post = drop (off s + len s) ?A"
  have A: "?A = pre @ regs @ post"
    unfolding pre_def post_def regs
    by (metis add.commute append_take_drop_id drop_drop)
  have lp: "length pre = off s" using fit by (simp add: pre_def)
  have w: "write_at ?A (off s + i) (drop (Suc i) regs) =
      pre @ take i regs @ drop (Suc i) regs @ drop (len s - 1) regs @ post"
    using i lr lp by (simp add: write_at_def A)
  have lastr: "drop (len s - 1) regs = [last regs]"
    using lr pos by (cases regs rule: rev_cases) auto
  have "elems arrs' s = take (len s) (drop (off s) (arrs' ! arr s))"
    using pos by (simp add: elems_def)
  also have "arrs' ! arr s = pre @ take i regs @ drop (Suc i) regs @ [last regs] @ post"
    using a lastr by (simp add: arrs'_def w)
  also have "take (len s) (drop (off s) (pre @ take i regs @ drop (Suc i) regs @ [last regs] @ post)) =
      take i regs @ drop (Suc i) regs @ [last regs]"
    using i lr lp by simp
  finally show ?thesis .
qed

section \<open>The bus\<close>

lemmas bus_defs = Subscribe_def Unsubscribe_def Publish_def make_chan_def with_cancel_def perform_def
  subscriber_id_def nil_slice_def append_go_def elems_def reslice_def write_at_def Let_def

lemma Subscribe_one:
  "Subscribe empty_bus empty_world ''c'' ''A'' = (Returned None, one_bus, one_world)"
  by (simp add: bus_defs empty_bus_def empty_world_def one_bus_def one_world_def)

lemma Subscribe_two:
  "Subscribe one_bus one_world ''c'' ''B'' = (Returned None, two_bus, two_world)"
  by (simp add: bus_defs one_bus_def one_world_def two_bus_def two_world_def eval_nat_numeral)

lemma Unsubscribe_last_of_two:
  "Unsubscribe two_bus two_world ''c'' ''B'' =
     (Returned None, two_bus\<lparr>ids := GoMap [''c:A'' \<mapsto> ()]\<rparr>,
      two_world\<lparr>trace := trace two_world @ [Cancel 1]\<rparr>)"
  by (simp add: bus_defs two_bus_def two_world_def eval_nat_numeral)

lemma subscriber_id_inject: "subscriber_id c1 h = subscriber_id c2 h \<longleftrightarrow> c1 = c2"
  by (simp add: subscriber_id_def)

text \<open>The trace of the loop of Publish, by induction on the registrations still to visit.\<close>

lemma publish_loop_trace:
  "publish_loop (Some h) data regs w =
     w\<lparr>chans := chans w + 2 * length regs,
       trace := trace w @ concat (map (visit h data (chans w) regs) [0..<length regs])\<rparr>"
proof (induction regs arbitrary: w)
  case Nil
  then show ?case by simp
next
  case (Cons s regs)
  let ?w1 = "w\<lparr>chans := Suc (Suc (chans w)), trace := trace w @ visit h data (chans w) (s # regs) 0\<rparr>"
  have step: "publish_loop (Some h) data (s # regs) w = publish_loop (Some h) data regs ?w1"
    by (simp add: make_chan_def perform_def visit_def)
  have upt: "[0..<length (s # regs)] = 0 # map Suc [0..<length regs]"
    by (simp add: upt_conv_Cons map_Suc_upt del: upt_Suc)
  have shift: "visit h data (chans w) (s # regs) \<circ> Suc = visit h data (Suc (Suc (chans w))) regs"
    by (rule ext) (simp add: visit_def)
  show ?case
    unfolding step Cons.IH upt by (simp add: shift del: upt_Suc)
qed

lemma Subscribe_accepted:
  assumes "Subscribe bus w channel handler = (Returned None, bus1, w1)"
  shows "gm_lookup (ids bus) (subscriber_id channel handler) = None"
    and "\<exists>new arrays'.
           append_go (arrays w)
             (case gm_lookup (subscribers bus) channel of None \<Rightarrow> nil_slice | Some s \<Rightarrow> s)
             [\<lparr>sid = subscriber_id channel handler, ch = chans w, cancel = ctxs w\<rparr>] = (new, arrays') \<and>
           gm_store (subscribers bus) channel new = Some (subscribers bus1) \<and>
           gm_store (ids bus) (subscriber_id channel handler) () = Some (ids bus1) \<and>
           w1 = w\<lparr>arrays := arrays', chans := Suc (chans w), ctxs := Suc (ctxs w),
                  trace := trace w @ [Worker (chans w) (ctxs w) handler]\<rparr>"
  using assms
  by (auto simp: Subscribe_def make_chan_def with_cancel_def perform_def Let_def
        split: option.splits prod.splits)

text \<open>Subscribe succeeds whenever both tables are allocated and the id is not known.\<close>

lemma Subscribe_succeeds:
  assumes "subscribers bus = GoMap m" and "ids bus = GoMap k"
      and "k (subscriber_id channel handler) = None"
  shows "fst (Subscribe bus w channel handler) = Returned None"
  using assms
  by (simp add: Subscribe_def make_chan_def with_cancel_def perform_def Let_def
        split: prod.splits option.splits)

text \<open>On a bus whose subscriber table is nil, Subscribe panics once the id is not known.\<close>

lemma Subscribe_panics_on_nil_table:
  assumes "subscribers bus = NilMap" and "gm_lookup (ids bus) (subscriber_id channel handler) = None"
  shows "fst (Subscribe bus w channel handler) = Panicked"
  using assms
  by (simp add: Subscribe_def make_chan_def with_cancel_def perform_def Let_def
        split: prod.splits option.splits)

lemma find_subscriber_Some:
  "find_subscriber rid xs i0 = Some (i, sbcr) \<Longrightarrow>
     i0 \<le> i \<and> i - i0 < length xs \<and> xs ! (i - i0) = sbcr \<and> sid sbcr = rid"
proof (induction xs arbitrary: i0)
  case Nil
  then show ?case by simp
next
  case (Cons x xs)
  show ?case
  proof (cases "sid x = rid")
    case True
    with Cons.prems show ?thesis by auto
  next
    case False
    with Cons.prems have "find_subscriber rid xs (Suc i0) = Some (i, sbcr)" by simp
    from Cons.IH[OF this] show ?thesis by (auto simp: Suc_diff_le)
  qed
qed

text \<open>
  What Unsubscribe does when it finds the registration at index \<open>i\<close>: it calls the
  cancel function and deletes the id; the channel is deleted when its header had length
  1; otherwise the header in the table keeps its length, and the channel's list is
  the old one with the registration at \<open>i\<close> taken out and the last one doubled.
\<close>

lemma Unsubscribe_found:
  assumes look: "gm_lookup (subscribers bus) channel = Some sub"
      and wf: "wf_slice (arrays w) sub"
      and found: "find_subscriber (subscriber_id channel handler) (elems (arrays w) sub) 0 = Some (i, sbcr)"
  shows "\<exists>bus' w'. Unsubscribe bus w channel handler = (Returned None, bus', w') \<and>
           effects_since w w' = [Cancel (cancel sbcr)] \<and>
           ids bus' = gm_delete (ids bus) (subscriber_id channel handler) \<and>
           subscribers bus' =
             (if len sub = 1 then gm_delete (subscribers bus) channel else subscribers bus) \<and>
           registrations bus' w' channel =
             (if len sub = 1 then []
              else take i (elems (arrays w) sub) @ drop (Suc i) (elems (arrays w) sub) @
                   [last (elems (arrays w) sub)])"
proof -
  let ?regs = "elems (arrays w) sub"
  let ?rid = "subscriber_id channel handler"
  let ?w1 = "perform (Cancel (cancel sbcr)) w"
  let ?front = "\<lparr>arr = arr sub, off = off sub, len = i, cap = cap sub\<rparr>"
  let ?rear = "\<lparr>arr = arr sub, off = off sub + (i + 1), len = len sub - (i + 1), cap = cap sub - (i + 1)\<rparr>"
  from find_subscriber_Some[OF found] length_elems[OF wf] have i: "i < len sub" by simp
  from wf have cap: "len sub \<le> cap sub" by (simp add: wf_slice_def)
  have front: "reslice sub 0 i = Some ?front" using i cap by (simp add: reslice_def)
  have rear: "reslice sub (i + 1) (len sub) = Some ?rear" using i cap by (simp add: reslice_def)
  have arrs1: "arrays ?w1 = arrays w" by (simp add: perform_def)
  have ys: "elems (arrays w)
               \<lparr>arr = arr sub, off = Suc (off sub + i), len = len sub - Suc i, cap = cap sub - Suc i\<rparr> =
             drop (Suc i) ?regs"
    using elems_back[OF wf i] by simp
  have lr: "length ?regs = len sub" by (rule length_elems[OF wf])
  obtain sub' arrays' where app: "append_go (arrays w) ?front (drop (Suc i) ?regs) = (sub', arrays')"
    by (cases "append_go (arrays w) ?front (drop (Suc i) ?regs)")
  have len': "len sub' = len sub - 1"
    using len_append_go[OF app] i lr by simp
  have view: "elems arrays' sub = take i ?regs @ drop (Suc i) ?regs @ [last ?regs]"
  proof (cases "drop (Suc i) ?regs = []")
    case True
    with app have same: "arrays' = arrays w" by (simp add: append_go_def)
    from True lr i have "len sub - 1 = i" by simp
    with lr have "take i ?regs = butlast ?regs" by (simp add: butlast_conv_take)
    moreover from lr i have "?regs \<noteq> []" by auto
    ultimately show ?thesis using True same by simp
  next
    case False
    with app i cap lr have "arrays' =
        (arrays w)[arr sub := write_at (arrays w ! arr sub) (off sub + i) (drop (Suc i) ?regs)]"
      by (auto simp: append_go_def split: if_splits)
    with elems_after_removal[OF wf i] show ?thesis by simp
  qed
  define bus1 where "bus1 = bus\<lparr>ids := gm_delete (ids bus) ?rid\<rparr>"
  define bus2 where "bus2 = (if len sub' = 0
      then bus1\<lparr>subscribers := gm_delete (subscribers bus1) channel\<rparr> else bus1)"
  define w2 where "w2 = ?w1\<lparr>arrays := arrays'\<rparr>"
  have run: "Unsubscribe bus w channel handler = (Returned None, bus2, w2)"
    using look found front rear app
    by (simp add: Unsubscribe_def Let_def ys arrs1 bus1_def bus2_def w2_def)
  have one: "len sub' = 0 \<longleftrightarrow> len sub = 1" using len' i by auto
  have "effects_since w w2 = [Cancel (cancel sbcr)]"
    by (simp add: effects_since_def w2_def perform_def)
  moreover have "ids bus2 = gm_delete (ids bus) ?rid"
    by (simp add: bus2_def bus1_def)
  moreover have "subscribers bus2 =
      (if len sub = 1 then gm_delete (subscribers bus) channel else subscribers bus)"
    using one by (simp add: bus2_def bus1_def)
  moreover have "registrations bus2 w2 channel =
      (if len sub = 1 then [] else take i ?regs @ drop (Suc i) ?regs @ [last ?regs])"
    using one look view
    by (simp add: registrations_def bus2_def bus1_def w2_def gm_lookup_delete)
  ultimately show ?thesis using run by blast
qed

text \<open>
  No call leaves a channel with an empty list in the table, so in a bus built by these
  calls a channel has no registration exactly when the table has no entry for it.
\<close>

lemma no_empty_channel_empty_bus: "no_empty_channel empty_bus"
  by (simp add: no_empty_channel_def empty_bus_def)

lemma no_empty_channel_Publish:
  "Publish bus w channel data handler = (bus', w') \<Longrightarrow> bus' = bus"
  by (auto simp: Publish_def split: option.splits)

lemma no_empty_channel_Subscribe:
  assumes "no_empty_channel bus" and "Subscribe bus w channel handler = (r, bus', w')"
  shows "no_empty_channel bus'"
proof -
  have unchanged: "no_empty_channel bus'" if "subscribers bus' = subscribers bus"
    using assms(1) that by (simp add: no_empty_channel_def)
  show ?thesis
  proof (cases "gm_lookup (ids bus) (subscriber_id channel handler)")
    case (Some u)
    with assms(2) have "bus' = bus"
      by (auto simp: Subscribe_def make_chan_def with_cancel_def perform_def Let_def)
    with unchanged show ?thesis by simp
  next
    case None
    let ?old = "case gm_lookup (subscribers bus) channel of None \<Rightarrow> nil_slice | Some s \<Rightarrow> s"
    let ?w3 = "perform (Worker (chans w) (ctxs w) handler) (w\<lparr>chans := Suc (chans w), ctxs := Suc (ctxs w)\<rparr>)"
    obtain new arrays' where app:
      "append_go (arrays ?w3) ?old
         [\<lparr>sid = subscriber_id channel handler, ch = chans w, cancel = ctxs w\<rparr>] = (new, arrays')"
      by (cases "append_go (arrays ?w3) ?old
         [\<lparr>sid = subscriber_id channel handler, ch = chans w, cancel = ctxs w\<rparr>]")
    from len_append_go[OF app] have pos: "0 < len new" by simp
    show ?thesis
    proof (cases "gm_store (subscribers bus) channel new")
      case n: None
      with assms(2) None app have "bus' = bus"
        by (simp add: Subscribe_def make_chan_def with_cancel_def Let_def)
      with unchanged show ?thesis by simp
    next
      case (Some subscribers')
      with assms(2) None app have "subscribers bus' = subscribers'"
        by (auto simp: Subscribe_def make_chan_def with_cancel_def Let_def split: option.splits)
      with gm_lookup_store[OF Some] assms(1) pos show ?thesis
        by (auto simp: no_empty_channel_def split: if_splits)
    qed
  qed
qed

lemma no_empty_channel_Unsubscribe:
  assumes "no_empty_channel bus" and "Unsubscribe bus w channel handler = (r, bus', w')"
  shows "no_empty_channel bus'"
proof -
  from assms(2) have "subscribers bus' = subscribers bus \<or>
      subscribers bus' = gm_delete (subscribers bus) channel"
    by (auto simp: Unsubscribe_def Let_def split: option.splits prod.splits if_splits)
  with assms(1) show ?thesis
    by (auto simp: no_empty_channel_def gm_lookup_delete split: if_splits)
qed

lemma no_registration_iff_absent:
  assumes "no_empty_channel bus" and "wf_channel bus w channel"
  shows "registrations bus w channel = [] \<longleftrightarrow> gm_lookup (subscribers bus) channel = None"
proof (cases "gm_lookup (subscribers bus) channel")
  case None
  then show ?thesis by (simp add: registrations_def)
next
  case (Some s)
  with assms have "0 < len s" "len s \<le> cap s" "cap s \<noteq> 0 \<Longrightarrow> off s + cap s \<le> length (arrays w ! arr s)"
    by (auto simp: no_empty_channel_def wf_channel_def wf_slice_def)
  then have "length (elems (arrays w) s) = len s"
    by (auto simp: elems_def)
  with Some \<open>0 < len s\<close> show ?thesis
    by (auto simp: registrations_def)
qed

text \<open>
  C1 (Unsubscribe removes the registration from the channel's list, and after the last
  subscriber is unsubscribed a Publish finds no subscribers). On the bus holding A and
  B on channel c, \<open>Unsubscribe("c", B)\<close> returns nil and deletes the id, but the
  channel's list in the table still holds A and B. After \<open>Unsubscribe("c", A)\<close> and
  \<open>Unsubscribe("c", B)\<close> no id is known, yet the channel is still in the table with B
  twice, and a Publish calls the handler twice with a nil error instead of once with
  ErrChannelNotFound.
\<close>

theorem Unsubscribe_leaves_registration_in_table:
  "fst (Unsubscribe two_bus two_world ''c'' ''B'') = Returned None \<and>
   registrations (fst (snd (Unsubscribe two_bus two_world ''c'' ''B'')))
     (snd (snd (Unsubscribe two_bus two_world ''c'' ''B''))) ''c'' =
     [\<lparr>sid = ''c:A'', ch = 0, cancel = 0\<rparr>, \<lparr>sid = ''c:B'', ch = 1, cancel = 1\<rparr>] \<and>
   gm_keys (ids (fst (snd (Unsubscribe two_bus two_world ''c'' ''B'')))) = {''c:A''} \<and>
   registrations (fst drained) (snd drained) ''c'' =
     [\<lparr>sid = ''c:B'', ch = 1, cancel = 1\<rparr>, \<lparr>sid = ''c:B'', ch = 1, cancel = 1\<rparr>] \<and>
   gm_keys (ids (fst drained)) = {} \<and>
   effects_since (snd drained) (snd (Publish (fst drained) (snd drained) ''c'' ''x'' (Some 7))) =
     [Deliver 1 \<lparr>payload = ''x'', reply = 2, error = 3\<rparr>, Consume 7 (Some 2) (Some 3) None 25000000,
      Deliver 1 \<lparr>payload = ''x'', reply = 4, error = 5\<rparr>, Consume 7 (Some 4) (Some 5) None 25000000]"
proof -
  have first: "Unsubscribe two_bus two_world ''c'' ''A'' =
     (Returned None,
      two_bus\<lparr>ids := GoMap [''c:B'' \<mapsto> ()]\<rparr>,
      two_world\<lparr>arrays := [[\<lparr>sid = ''c:A'', ch = 0, cancel = 0\<rparr>],
                            [\<lparr>sid = ''c:B'', ch = 1, cancel = 1\<rparr>, \<lparr>sid = ''c:B'', ch = 1, cancel = 1\<rparr>]],
                trace := trace two_world @ [Cancel 0]\<rparr>)"
    by (simp add: bus_defs two_bus_def two_world_def eval_nat_numeral)
  have d: "drained =
     (two_bus\<lparr>ids := GoMap Map.empty\<rparr>,
      two_world\<lparr>arrays := [[\<lparr>sid = ''c:A'', ch = 0, cancel = 0\<rparr>],
                            [\<lparr>sid = ''c:B'', ch = 1, cancel = 1\<rparr>, \<lparr>sid = ''c:B'', ch = 1, cancel = 1\<rparr>]],
                trace := trace two_world @ [Cancel 0, Cancel 1]\<rparr>)"
    unfolding drained_def first
    by (simp add: bus_defs two_bus_def two_world_def eval_nat_numeral)
  show ?thesis
    unfolding d Unsubscribe_last_of_two
    by (simp add: registrations_def two_bus_def two_world_def elems_def Publish_def make_chan_def
          perform_def effects_since_def replyTimeout_def Millisecond_def)
qed

text \<open>
  C3: on a channel with N \<ge> 1 registrations and with a handler, Publish calls the
  handler exactly N times, once per registration in the order of the list; the call
  for the registration at index \<open>i\<close> follows the start of the delivery of the event
  made for it and passes that event's reply and error channels, a nil error and
  \<open>replyTimeout\<close>, 25 ms. The calls are part of what Publish has done when it
  returns; the bus tables are unchanged.
\<close>

theorem Publish_invokes_handler_once_per_subscriber:
  assumes "registrations bus w channel = regs" and "regs \<noteq> []"
      and "Publish bus w channel data (Some h) = (bus', w')"
  shows "bus' = bus \<and> trace w' = trace w @ effects_since w w' \<and>
         effects_since w w' =
           concat (map (\<lambda>i. [Deliver (ch (regs ! i))
                                \<lparr>payload = data, reply = chans w + 2 * i, error = chans w + 2 * i + 1\<rparr>,
                              Consume h (Some (chans w + 2 * i)) (Some (chans w + 2 * i + 1)) None
                                (25 * Millisecond)])
                    [0..<length regs]) \<and>
         handler_calls (effects_since w w') =
           map (\<lambda>i. Consume h (Some (chans w + 2 * i)) (Some (chans w + 2 * i + 1)) None
                       (25 * Millisecond))
             [0..<length regs] \<and>
         length (handler_calls (effects_since w w')) = length regs"
proof -
  from assms(1,2) obtain s where s: "gm_lookup (subscribers bus) channel = Some s"
    and regs: "elems (arrays w) s = regs"
    by (auto simp: registrations_def split: option.splits)
  from assms(3) s regs have bus': "bus' = bus" and w': "w' = publish_loop (Some h) data regs w"
    by (auto simp: Publish_def)
  have tr: "trace w' = trace w @ concat (map (visit h data (chans w) regs) [0..<length regs])"
    by (simp add: w' publish_loop_trace)
  then have since: "effects_since w w' = concat (map (visit h data (chans w) regs) [0..<length regs])"
    by (simp add: effects_since_def)
  have v: "visit h data (chans w) regs =
      (\<lambda>i. [Deliver (ch (regs ! i))
                \<lparr>payload = data, reply = chans w + 2 * i, error = chans w + 2 * i + 1\<rparr>,
             Consume h (Some (chans w + 2 * i)) (Some (chans w + 2 * i + 1)) None (25 * Millisecond)])"
    by (rule ext) (simp add: visit_def replyTimeout_def)
  have calls: "handler_calls (concat (map (visit h data (chans w) regs) xs)) =
      map (\<lambda>i. Consume h (Some (chans w + 2 * i)) (Some (chans w + 2 * i + 1)) None (25 * Millisecond)) xs"
    for xs
    by (induction xs) (simp_all add: handler_calls_def visit_def replyTimeout_def)
  show ?thesis
    using bus' tr since calls[of "[0..<length regs]"] by (simp add: v)
qed

theorem Publish_invokes_handler_once_per_subscriber_witness:
  "registrations two_bus two_world ''c'' =
     [\<lparr>sid = ''c:A'', ch = 0, cancel = 0\<rparr>, \<lparr>sid = ''c:B'', ch = 1, cancel = 1\<rparr>] \<and>
   effects_since two_world (snd (Publish two_bus two_world ''c'' ''x'' (Some 7))) =
     [Deliver 0 \<lparr>payload = ''x'', reply = 2, error = 3\<rparr>, Consume 7 (Some 2) (Some 3) None 25000000,
      Deliver 1 \<lparr>payload = ''x'', reply = 4, error = 5\<rparr>, Consume 7 (Some 4) (Some 5) None 25000000] \<and>
   length (handler_calls (effects_since two_world (snd (Publish two_bus two_world ''c'' ''x'' (Some 7))))) = 2"
proof -
  have regs: "registrations two_bus two_world ''c'' =
     [\<lparr>sid = ''c:A'', ch = 0, cancel = 0\<rparr>, \<lparr>sid = ''c:B'', ch = 1, cancel = 1\<rparr>]"
    by (simp add: registrations_def two_bus_def two_world_def elems_def)
  have ne: "[\<lparr>sid = ''c:A'', ch = 0, cancel = 0\<rparr>, \<lparr>sid = ''c:B'', ch = 1, cancel = 1\<rparr>] \<noteq> []"
    by simp
  have run: "Publish two_bus two_world ''c'' ''x'' (Some 7) =
      (fst (Publish two_bus two_world ''c'' ''x'' (Some 7)), snd (Publish two_bus two_world ''c'' ''x'' (Some 7)))"
    by simp
  from Publish_invokes_handler_once_per_subscriber[OF regs ne run] regs
  show ?thesis
    by (simp add: two_world_def Millisecond_def handler_calls_def)
qed

text \<open>
  C4: when the table has no entry for the channel (by \<open>no_registration_iff_absent\<close>,
  when the channel has no registration), Publish calls a given handler exactly once,
  with no reply and no error channel, ErrChannelNotFound and timeout 0, starts no
  delivery and changes nothing else; without a handler it does nothing.
\<close>

theorem Publish_without_subscribers:
  assumes "gm_lookup (subscribers bus) channel = None"
  shows "Publish bus w channel data (Some h) =
           (bus, w\<lparr>trace := trace w @ [Consume h None None (Some ErrChannelNotFound) 0]\<rparr>) \<and>
         deliveries (effects_since w (snd (Publish bus w channel data (Some h)))) = [] \<and>
         Publish bus w channel data None = (bus, w)"
  using assms by (simp add: Publish_def perform_def effects_since_def deliveries_def)

theorem Publish_without_subscribers_witness:
  "gm_lookup (subscribers two_bus) ''d'' = None \<and>
   Publish two_bus two_world ''d'' ''x'' (Some 7) =
     (two_bus, two_world\<lparr>trace := [Worker 0 0 ''A'', Worker 1 1 ''B'',
                                    Consume 7 None None (Some ErrChannelNotFound) 0]\<rparr>) \<and>
   Publish two_bus two_world ''d'' ''x'' None = (two_bus, two_world)"
proof -
  have absent: "gm_lookup (subscribers two_bus) ''d'' = None"
    by (simp add: two_bus_def)
  from Publish_without_subscribers[OF absent, of two_world "''x''" 7] absent
  show ?thesis by (simp add: two_world_def)
qed

text \<open>
  What an accepted Subscribe has recorded, and what the next Subscribe calls on the
  resulting bus return.
\<close>

lemma Subscribe_accepted_records:
  assumes "Subscribe bus w channel handler = (Returned None, bus1, w1)"
      and "wf_channel bus w channel"
  shows "registrations bus1 w1 channel =
           registrations bus w channel @
             [\<lparr>sid = subscriber_id channel handler, ch = chans w, cancel = ctxs w\<rparr>] \<and>
         gm_keys (ids bus1) = insert (subscriber_id channel handler) (gm_keys (ids bus)) \<and>
         subscriber_id channel handler \<notin> gm_keys (ids bus) \<and>
         (\<forall>c. c \<noteq> channel \<longrightarrow> gm_lookup (subscribers bus1) c = gm_lookup (subscribers bus) c) \<and>
         effects_since w w1 = [Worker (chans w) (ctxs w) handler] \<and>
         (\<forall>channel' handler'. subscriber_id channel' handler' = subscriber_id channel handler \<longrightarrow>
            fst (Subscribe bus1 w1 channel' handler') =
              Returned (Some ErrChannelSubscriberAlreadyExists)) \<and>
         (\<forall>channel2. channel2 \<noteq> channel \<and> subscriber_id channel2 handler \<notin> gm_keys (ids bus) \<longrightarrow>
            fst (Subscribe bus1 w1 channel2 handler) = Returned None)"
proof -
  let ?rid = "subscriber_id channel handler"
  let ?old = "case gm_lookup (subscribers bus) channel of None \<Rightarrow> nil_slice | Some s \<Rightarrow> s"
  from Subscribe_accepted[OF assms(1)] obtain new arrays' where
    fresh: "gm_lookup (ids bus) ?rid = None"
    and app: "append_go (arrays w) ?old [\<lparr>sid = ?rid, ch = chans w, cancel = ctxs w\<rparr>] = (new, arrays')"
    and subs: "gm_store (subscribers bus) channel new = Some (subscribers bus1)"
    and ids1: "gm_store (ids bus) ?rid () = Some (ids bus1)"
    and w1: "w1 = w\<lparr>arrays := arrays', chans := Suc (chans w), ctxs := Suc (ctxs w),
                  trace := trace w @ [Worker (chans w) (ctxs w) handler]\<rparr>"
    by blast
  have wf: "wf_slice (arrays w) ?old"
    using assms(2) by (auto simp: wf_channel_def wf_nil_slice split: option.splits)
  have old: "elems (arrays w) ?old = registrations bus w channel"
    by (auto simp: registrations_def elems_nil_slice split: option.splits)
  have "registrations bus1 w1 channel = elems arrays' new"
    using gm_lookup_store[OF subs, of channel] by (simp add: registrations_def w1)
  also have "\<dots> = elems (arrays w) ?old @ [\<lparr>sid = ?rid, ch = chans w, cancel = ctxs w\<rparr>]"
    by (rule elems_append_go[OF wf app])
  finally have recorded: "registrations bus1 w1 channel =
      registrations bus w channel @ [\<lparr>sid = ?rid, ch = chans w, cancel = ctxs w\<rparr>]"
    by (simp add: old)
  have keys: "gm_keys (ids bus1) = insert ?rid (gm_keys (ids bus))"
    by (rule gm_keys_store[OF ids1])
  have known: "gm_lookup (ids bus1) ?rid = Some ()"
    using gm_lookup_store[OF ids1, of ?rid] by simp
  have again: "fst (Subscribe bus1 w1 channel' handler') =
      Returned (Some ErrChannelSubscriberAlreadyExists)"
    if "subscriber_id channel' handler' = subscriber_id channel handler" for channel' handler'
    using known that by (simp add: Subscribe_def make_chan_def with_cancel_def perform_def Let_def)
  have other: "fst (Subscribe bus1 w1 channel2 handler) = Returned None"
    if "channel2 \<noteq> channel" and "subscriber_id channel2 handler \<notin> gm_keys (ids bus)" for channel2
  proof -
    let ?rid2 = "subscriber_id channel2 handler"
    from that have "?rid2 \<notin> gm_keys (ids bus1)"
      by (simp add: keys subscriber_id_inject)
    then have unknown: "gm_lookup (ids bus1) ?rid2 = None"
      by (simp add: gm_lookup_keys)
    from subs obtain m where m: "subscribers bus1 = GoMap m" by (metis gm_store_allocated)
    from ids1 obtain k where k: "ids bus1 = GoMap k" by (metis gm_store_allocated)
    show ?thesis
      using unknown m k
      by (simp add: Subscribe_def make_chan_def with_cancel_def perform_def Let_def
            split: prod.splits option.splits)
  qed
  have others: "gm_lookup (subscribers bus1) c = gm_lookup (subscribers bus) c" if "c \<noteq> channel" for c
    using gm_lookup_store[OF subs, of c] that by simp
  have started: "effects_since w w1 = [Worker (chans w) (ctxs w) handler]"
    by (simp add: w1 effects_since_def)
  from recorded keys fresh again other others started show ?thesis
    by (simp add: gm_lookup_keys)
qed

text \<open>
  C5: on a bus whose tables are allocated and do not know the id of (channel,
  consumer), Subscribe succeeds, appends the new registration to the channel's list
  and adds the id to the known ids. On the resulting bus, Subscribe with the same
  channel and consumer, or with any channel and consumer that give the same id, fails
  with ErrChannelSubscriberAlreadyExists, and Subscribe of the same consumer on any
  other channel whose id was not known succeeds as well.
\<close>

theorem Subscribe_registers_once:
  assumes "subscribers bus = GoMap m" and "ids bus = GoMap k"
      and "k (subscriber_id channel handler) = None"
      and "wf_channel bus w channel"
  shows "fst (Subscribe bus w channel handler) = Returned None \<and>
         registrations (fst (snd (Subscribe bus w channel handler)))
             (snd (snd (Subscribe bus w channel handler))) channel =
           registrations bus w channel @
             [\<lparr>sid = subscriber_id channel handler, ch = chans w, cancel = ctxs w\<rparr>] \<and>
         gm_keys (ids (fst (snd (Subscribe bus w channel handler)))) =
           insert (subscriber_id channel handler) (dom k) \<and>
         (\<forall>c. c \<noteq> channel \<longrightarrow>
            gm_lookup (subscribers (fst (snd (Subscribe bus w channel handler)))) c = m c) \<and>
         effects_since w (snd (snd (Subscribe bus w channel handler))) =
           [Worker (chans w) (ctxs w) handler] \<and>
         (\<forall>channel' handler'. subscriber_id channel' handler' = subscriber_id channel handler \<longrightarrow>
            fst (Subscribe (fst (snd (Subscribe bus w channel handler)))
                   (snd (snd (Subscribe bus w channel handler))) channel' handler') =
              Returned (Some ErrChannelSubscriberAlreadyExists)) \<and>
         (\<forall>channel2. channel2 \<noteq> channel \<and> k (subscriber_id channel2 handler) = None \<longrightarrow>
            fst (Subscribe (fst (snd (Subscribe bus w channel handler)))
                   (snd (snd (Subscribe bus w channel handler))) channel2 handler) =
              Returned None)"
proof -
  let ?S = "Subscribe bus w channel handler"
  have ok: "fst ?S = Returned None"
    by (rule Subscribe_succeeds[OF assms(1-3)])
  then have run: "?S = (Returned None, fst (snd ?S), snd (snd ?S))"
    by (simp add: prod_eq_iff)
  have keys: "gm_keys (ids bus) = dom k" by (simp add: assms(2))
  have unknown: "subscriber_id c h \<notin> gm_keys (ids bus) \<longleftrightarrow> k (subscriber_id c h) = None" for c h
    by (auto simp: keys)
  from Subscribe_accepted_records[OF run assms(4)] ok show ?thesis
    by (auto simp: keys domIff assms(1))
qed

theorem Subscribe_registers_once_witness:
  "subscribers empty_bus = GoMap Map.empty \<and> ids empty_bus = GoMap Map.empty \<and>
   wf_channel empty_bus (empty_world :: string world) ''c'' \<and>
   Subscribe empty_bus empty_world ''c'' ''A'' = (Returned None, one_bus, one_world) \<and>
   registrations one_bus one_world ''c'' = [\<lparr>sid = ''c:A'', ch = 0, cancel = 0\<rparr>] \<and>
   gm_keys (ids one_bus) = {''c:A''} \<and>
   fst (Subscribe one_bus one_world ''c'' ''A'') = Returned (Some ErrChannelSubscriberAlreadyExists) \<and>
   fst (Subscribe one_bus one_world ''d'' ''A'') = Returned None"
proof -
  have s: "subscribers empty_bus = GoMap Map.empty" and i: "ids empty_bus = GoMap Map.empty"
    by (simp_all add: empty_bus_def)
  have fresh: "Map.empty (subscriber_id ''c'' ''A'') = None" by simp
  have wf: "wf_channel empty_bus (empty_world :: string world) ''c''"
    by (simp add: wf_channel_def empty_bus_def)
  have regs: "registrations empty_bus (empty_world :: string world) ''c'' = []"
    by (simp add: empty_bus_def registrations_def)
  from Subscribe_registers_once[where channel = "''c''" and handler = "''A''" and k = Map.empty,
      OF s i fresh wf] s i wf regs Subscribe_one
  show ?thesis by (simp add: empty_world_def subscriber_id_def)
qed

text \<open>
  C9: when Subscribe returns ErrChannelSubscriberAlreadyExists the bus is the one
  before the call: the subscriber table, the known ids, the backing arrays and so
  every channel's list are unchanged. All the call has done is start the worker task.
\<close>

theorem Subscribe_rejection_changes_no_table:
  assumes "Subscribe bus w channel handler = (Returned (Some ErrChannelSubscriberAlreadyExists), bus', w')"
  shows "bus' = bus \<and> subscribers bus' = subscribers bus \<and> ids bus' = ids bus \<and>
         arrays w' = arrays w \<and>
         (\<forall>c. registrations bus' w' c = registrations bus w c) \<and>
         effects_since w w' = [Worker (chans w) (ctxs w) handler]"
  using assms
  by (auto simp: Subscribe_def make_chan_def with_cancel_def perform_def Let_def registrations_def
        effects_since_def split: option.splits prod.splits)

theorem Subscribe_rejection_changes_no_table_witness:
  "Subscribe one_bus one_world ''c'' ''A'' =
     (Returned (Some ErrChannelSubscriberAlreadyExists), one_bus,
      one_world\<lparr>chans := 2, ctxs := 2, trace := [Worker 0 0 ''A'', Worker 1 1 ''A'']\<rparr>) \<and>
   registrations one_bus (one_world\<lparr>chans := 2, ctxs := 2, trace := [Worker 0 0 ''A'', Worker 1 1 ''A'']\<rparr>) ''c'' =
     [\<lparr>sid = ''c:A'', ch = 0, cancel = 0\<rparr>]"
proof -
  have run: "Subscribe one_bus one_world ''c'' ''A'' =
     (Returned (Some ErrChannelSubscriberAlreadyExists), one_bus,
      one_world\<lparr>chans := 2, ctxs := 2, trace := [Worker 0 0 ''A'', Worker 1 1 ''A'']\<rparr>)"
    by (simp add: bus_defs one_bus_def one_world_def)
  from Subscribe_rejection_changes_no_table[OF run] run
  show ?thesis by (simp add: registrations_def one_bus_def one_world_def elems_def)
qed

section \<open>The kernel\<close>

lemma checkIf_simps:
  "checkIf core s None p = (True, core\<lparr>internal := None\<rparr>)"
  "checkIf core s (Some e) p = (False, core\<lparr>internal := Some e\<rparr>)"
  by (simp_all add: checkIf_def)

lemma upt_Suc_shift: "[0..<Suc n] = 0 # map Suc [0..<n]"
  by (simp add: upt_conv_Cons map_Suc_upt del: upt_Suc)

text \<open>
  The loop of Run over services whose Process hooks all succeed, each called in the
  world its predecessors left: it runs to its end through exactly these worlds. The
  loop over a list in two parts is the loop over the first part and then, if that ran
  to its end, the loop over the second.
\<close>

lemma run_loop_all_succeed:
  "\<forall>i<length ss. fst (service_Process env (ss ! i)
                        (fold (processed env (notifications core)) (take i ss) w)) = None \<Longrightarrow>
   \<exists>x. run_loop env ss (core, w, calls) =
         (True, core\<lparr>internal := x\<rparr>, fold (processed env (notifications core)) ss w,
          calls @ map (\<lambda>s. Call IsProcessed s None) ss)"
proof (induction ss arbitrary: core w calls)
  case Nil
  show ?case by (intro exI[of _ "internal core"]) simp
next
  case (Cons s ss)
  let ?q = "notifications core"
  from Cons.prems have first: "fst (service_Process env s w) = None" by force
  obtain w1 where p: "service_Process env s w = (None, w1)"
    using first by (cases "service_Process env s w") auto
  obtain ns w2 where n: "Notifications env ?q (Core (EntityNames env)) w1 = (ns, w2)"
    by (cases "Notifications env ?q (Core (EntityNames env)) w1")
  have w3: "processed env ?q s w = fold (core_handle env) ns w2"
    by (simp add: processed_def p n)
  have rest: "\<forall>i<length ss. fst (service_Process env (ss ! i)
        (fold (processed env (notifications (core\<lparr>internal := None\<rparr>))) (take i ss)
           (processed env ?q s w))) = None"
  proof (intro allI impI)
    fix i assume "i < length ss"
    then have "Suc i < length (s # ss)" by simp
    with Cons.prems have "fst (service_Process env ((s # ss) ! Suc i)
        (fold (processed env ?q) (take (Suc i) (s # ss)) w)) = None" by blast
    then show "fst (service_Process env (ss ! i)
        (fold (processed env (notifications (core\<lparr>internal := None\<rparr>))) (take i ss)
           (processed env ?q s w))) = None" by simp
  qed
  from Cons.IH[OF rest, of "calls @ [Call IsProcessed s None]"] obtain x where
    "run_loop env ss (core\<lparr>internal := None\<rparr>, processed env ?q s w, calls @ [Call IsProcessed s None]) =
       (True, core\<lparr>internal := None, internal := x\<rparr>,
        fold (processed env ?q) ss (processed env ?q s w),
        (calls @ [Call IsProcessed s None]) @ map (\<lambda>s. Call IsProcessed s None) ss)"
    by auto
  then show ?case
    by (intro exI[of _ x]) (simp add: p n w3 checkIf_simps)
qed

lemma run_loop_append:
  "run_loop env (pre @ post) k =
     (case run_loop env pre k of
        (True, k') \<Rightarrow> run_loop env post k'
      | (False, k') \<Rightarrow> (False, k'))"
proof (induction pre arbitrary: k)
  case Nil
  then show ?case by simp
next
  case (Cons s pre)
  obtain core w calls where k: "k = (core, w, calls)" by (cases k)
  obtain r w1 where p: "service_Process env s w = (r, w1)" by (cases "service_Process env s w")
  show ?case
  proof (cases r)
    case None
    obtain ns w2 where n: "Notifications env (notifications core) (Core (EntityNames env)) w1 = (ns, w2)"
      by (cases "Notifications env (notifications core) (Core (EntityNames env)) w1")
    show ?thesis
      unfolding k using p None n by (simp add: checkIf_simps Cons.IH)
  next
    case (Some e)
    show ?thesis
      unfolding k using p Some by (simp add: checkIf_simps)
  qed
qed

text \<open>The same for the loop of Stop over services whose Stop hooks all fail.\<close>

lemma stop_calls_Cons:
  "stop_calls env (s # ss) w (Suc n) =
     Call IsStopped s (fst (service_Stop env s w)) # stop_calls env ss (stopped env s w) n"
  unfolding stop_calls_def upt_Suc_shift by (simp add: comp_def del: upt_Suc)

lemma stop_calls_take: "n \<le> length ss \<Longrightarrow> stop_calls env (take n ss) w n = stop_calls env ss w n"
  by (simp add: stop_calls_def min_absorb2)

lemma stop_loop_all_fail:
  "\<forall>i<length ss. fst (service_Stop env (ss ! i) (fold (stopped env) (take i ss) w)) \<noteq> None \<Longrightarrow>
   \<exists>x. stop_loop env ss (core, w, calls) =
         (True, core\<lparr>internal := x\<rparr>, fold (stopped env) ss w,
          calls @ stop_calls env ss w (length ss))"
proof (induction ss arbitrary: core w calls)
  case Nil
  show ?case by (intro exI[of _ "internal core"]) (simp add: stop_calls_def)
next
  case (Cons s ss)
  from Cons.prems have "fst (service_Stop env s w) \<noteq> None" by force
  then obtain e w1 where p: "service_Stop env s w = (Some e, w1)"
    by (cases "service_Stop env s w") auto
  have w1: "stopped env s w = w1" by (simp add: stopped_def p)
  have rest: "\<forall>i<length ss. fst (service_Stop env (ss ! i)
        (fold (stopped env) (take i ss) (stopped env s w))) \<noteq> None"
  proof (intro allI impI)
    fix i assume "i < length ss"
    then have "Suc i < length (s # ss)" by simp
    with Cons.prems have "fst (service_Stop env ((s # ss) ! Suc i)
        (fold (stopped env) (take (Suc i) (s # ss)) w)) \<noteq> None" by blast
    then show "fst (service_Stop env (ss ! i)
        (fold (stopped env) (take i ss) (stopped env s w))) \<noteq> None" by simp
  qed
  from Cons.IH[OF rest, of "core\<lparr>internal := Some e\<rparr>" "calls @ [Call IsStopped s (Some e)]"]
  obtain x where
    "stop_loop env ss (core\<lparr>internal := Some e\<rparr>, stopped env s w, calls @ [Call IsStopped s (Some e)]) =
       (True, core\<lparr>internal := Some e, internal := x\<rparr>, fold (stopped env) ss (stopped env s w),
        (calls @ [Call IsStopped s (Some e)]) @ stop_calls env ss (stopped env s w) (length ss))"
    by auto
  then show ?case
    by (intro exI[of _ x]) (simp add: p w1 checkIf_simps stop_calls_Cons)
qed

lemma stop_loop_append:
  "stop_loop env (pre @ post) k =
     (case stop_loop env pre k of
        (True, k') \<Rightarrow> stop_loop env post k'
      | (False, k') \<Rightarrow> (False, k'))"
proof (induction pre arbitrary: k)
  case Nil
  then show ?case by simp
next
  case (Cons s pre)
  obtain core w calls where k: "k = (core, w, calls)" by (cases k)
  obtain r w1 where p: "service_Stop env s w = (r, w1)" by (cases "service_Stop env s w")
  show ?case
  proof (cases r)
    case None
    show ?thesis
      unfolding k using p None by (simp add: checkIf_simps)
  next
    case (Some e)
    show ?thesis
      unfolding k using p Some by (simp add: checkIf_simps Cons.IH)
  qed
qed

text \<open>The loops of Configure and Stop leave the state as it is.\<close>

lemma configure_loop_state:
  "configure_loop env props lg ss (core, w, calls) = (completed, core', w', calls') \<Longrightarrow>
     state core' = state core"
proof (induction ss arbitrary: core w calls)
  case Nil
  then show ?case by simp
next
  case (Cons s ss)
  obtain r1 w1 where p1: "service_Start env s (notifications core) lg w = (r1, w1)"
    by (cases "service_Start env s (notifications core) lg w")
  obtain r2 w2 where p2: "service_Configure env s props w1 = (r2, w2)"
    by (cases "service_Configure env s props w1")
  show ?case
  proof (cases r1)
    case (Some e)
    with Cons.prems p1 show ?thesis by (auto simp: checkIf_simps)
  next
    case None
    show ?thesis
    proof (cases r2)
      case (Some e)
      with Cons.prems p1 p2 None show ?thesis by (auto simp: checkIf_simps)
    next
      case n2: None
      from Cons.prems p1 p2 None n2
      have "configure_loop env props lg ss
              (core\<lparr>internal := None\<rparr>, w2,
               (calls @ [Call IsStarted s None]) @ [Call IsConfigured s None]) =
            (completed, core', w', calls')"
        by (simp add: checkIf_simps)
      from Cons.IH[OF this] show ?thesis by simp
    qed
  qed
qed

lemma stop_loop_state:
  "stop_loop env ss (core, w, calls) = (completed, core', w', calls') \<Longrightarrow>
     state core' = state core"
proof (induction ss arbitrary: core w calls)
  case Nil
  then show ?case by simp
next
  case (Cons s ss)
  obtain r w1 where p: "service_Stop env s w = (r, w1)" by (cases "service_Stop env s w")
  show ?case
  proof (cases r)
    case None
    with Cons.prems p show ?thesis by (auto simp: checkIf_simps)
  next
    case (Some e)
    from Cons.prems p Some
    have "stop_loop env ss (core\<lparr>internal := Some e\<rparr>, w1, calls @ [Call IsStopped s (Some e)]) =
            (completed, core', w', calls')"
      by (simp add: checkIf_simps)
    from Cons.IH[OF this] show ?thesis by simp
  qed
qed

lemma Configure_failed_state:
  assumes "Configure env core w svcs props lg = (Some e, core', w', calls)"
  shows "state core' = state core"
proof (cases "IsLoaded props")
  case False
  with assms show ?thesis by (simp add: Configure_def)
next
  case True
  obtain q w1 where q: "NewNotificationQueue env w = (q, w1)" by (cases "NewNotificationQueue env w")
  let ?core2 = "core\<lparr>services := svcs, logger := Some lg, notifications := Some q, internal := None\<rparr>"
  obtain completed core3 w3 calls3 where loop:
    "configure_loop env props lg svcs (?core2, logger_Info env lg InfoStartServices w1, []) =
       (completed, core3, w3, calls3)"
    by (cases "configure_loop env props lg svcs (?core2, logger_Info env lg InfoStartServices w1, [])") auto
  from configure_loop_state[OF loop] have "state core3 = state core" by simp
  with assms True q loop show ?thesis
    by (auto simp: Configure_def split: if_splits)
qed

lemma Stop_failed_state:
  assumes "Stop env core w = (Some e, core', w', calls)"
  shows "state core' = state core"
proof -
  obtain completed core2 w2 calls2 where loop:
    "stop_loop env (services core) (core, w, []) = (completed, core2, w2, calls2)"
    by (cases "stop_loop env (services core) (core, w, [])") auto
  from stop_loop_state[OF loop] have "state core2 = state core" .
  with assms loop show ?thesis by (auto simp: Stop_def split: if_splits)
qed

lemma api_calls_state:
  "api_calls env cs (core, w) = (rets, core', w') \<Longrightarrow> CallRun \<notin> set cs \<Longrightarrow>
     \<forall>r\<in>set rets. r \<noteq> None \<Longrightarrow> state core' = state core"
proof (induction cs arbitrary: core w rets)
  case Nil
  then show ?case by simp
next
  case (Cons c cs)
  obtain r core1 w1 calls where c: "api env c core w = (r, core1, w1, calls)"
    by (cases "api env c core w") auto
  obtain rs core2 w2 where cs: "api_calls env cs (core1, w1) = (rs, core2, w2)"
    by (cases "api_calls env cs (core1, w1)") auto
  from Cons.prems(1) c cs have eq: "rets = r # rs" "core2 = core'" "w2 = w'" by auto
  with Cons.prems(3) obtain e where r: "r = Some e" and rs: "\<forall>r\<in>set rs. r \<noteq> None" by auto
  have "state core1 = state core"
    using c r Cons.prems(2) Configure_failed_state Stop_failed_state
    by (cases c) auto
  moreover have "state core' = state core1"
    using Cons.IH[OF cs[unfolded eq] _ rs] Cons.prems(2) by simp
  ultimately show ?case by simp
qed

lemmas stub_defs = stub_env_def svcA_def svcB_def svcC_def svcD_def checkIf_def States_def new_core_def

lemma Configure_abc:
  "Configure stub_env new_core () [svcA, svcB, svcC] \<lparr>IsLoaded = True\<rparr> 0 =
     (None, abc_core,
      (), [Call IsStarted svcA None, Call IsConfigured svcA None,
           Call IsStarted svcB None, Call IsConfigured svcB None,
           Call IsStarted svcC None, Call IsConfigured svcC None])"
  by (simp add: Configure_def abc_core_def stub_defs)

lemma failing_calls:
  "api_calls stub_env [CallConfigure [svcD] \<lparr>IsLoaded = True\<rparr> 0,
                       CallConfigure [svcD] \<lparr>IsLoaded = False\<rparr> 0] (new_core, ()) =
     ([Some ''d: start failed'', Some ''properties not loaded''],
      \<lparr>services = [svcD], logger = Some 0, properties = None, notifications = Some 0,
        internal = Some ''d: start failed'', state = 0\<rparr>, ())"
  by (simp add: Configure_def stub_defs)

text \<open>
  C6: let the Process hooks of the first \<open>k\<close> services succeed, each called in the
  world left by the rounds before it. If the hook of the service at index \<open>k\<close> then
  fails with \<open>e\<close>, Run returns \<open>e\<close> with the state left at Working; the world is
  the one that hook left, so each of the services up to index \<open>k\<close> had its Process
  hook called exactly once, in list order, and no later service was called. If all
  hooks succeed (\<open>k\<close> is the length of the list), Run returns nil with the state Idle
  after one round for every service.
\<close>

theorem Run_aborts_at_first_failing_Process:
  assumes "k \<le> length (services core)"
      and "\<forall>i<k. fst (service_Process env (services core ! i)
                      (fold (processed env (notifications core)) (take i (services core)) w)) = None"
  shows "(k < length (services core) \<and>
          fst (service_Process env (services core ! k)
                 (fold (processed env (notifications core)) (take k (services core)) w)) = Some e \<longrightarrow>
            Run env core w =
              (Some e,
               core\<lparr>internal := Some e, state := Working States\<rparr>,
               snd (service_Process env (services core ! k)
                      (fold (processed env (notifications core)) (take k (services core)) w)),
               map (\<lambda>s. Call IsProcessed s None) (take k (services core)) @
                 [Call IsProcessed (services core ! k) (Some e)])) \<and>
         (k = length (services core) \<longrightarrow>
            fst (Run env core w) = None \<and>
            (\<exists>x. fst (snd (Run env core w)) = core\<lparr>internal := x, state := Idle States\<rparr>) \<and>
            state (fst (snd (Run env core w))) = Idle States \<and>
            fst (snd (snd (Run env core w))) =
              fold (processed env (notifications core)) (services core) w \<and>
            snd (snd (snd (Run env core w))) = map (\<lambda>s. Call IsProcessed s None) (services core))"
proof -
  let ?ss = "services core"
  let ?q = "notifications core"
  let ?pre = "take k ?ss"
  let ?core0 = "core\<lparr>state := Working States\<rparr>"
  let ?wk = "fold (processed env ?q) ?pre w"
  have "\<forall>i<length ?pre. fst (service_Process env (?pre ! i)
          (fold (processed env (notifications ?core0)) (take i ?pre) w)) = None"
    using assms by (simp add: min_absorb2)
  from run_loop_all_succeed[OF this, of "[]"] obtain x where pre:
    "run_loop env ?pre (?core0, w, []) =
       (True, ?core0\<lparr>internal := x\<rparr>, ?wk, map (\<lambda>s. Call IsProcessed s None) ?pre)"
    by auto
  have abort: "Run env core w =
      (Some e, core\<lparr>internal := Some e, state := Working States\<rparr>,
       snd (service_Process env (?ss ! k) ?wk),
       map (\<lambda>s. Call IsProcessed s None) ?pre @ [Call IsProcessed (?ss ! k) (Some e)])"
    if k: "k < length ?ss" and e: "fst (service_Process env (?ss ! k) ?wk) = Some e"
  proof -
    from k have split: "?ss = ?pre @ (?ss ! k) # drop (Suc k) ?ss"
      by (rule id_take_nth_drop)
    obtain w2 where p: "service_Process env (?ss ! k) ?wk = (Some e, w2)"
      using e by (cases "service_Process env (?ss ! k) ?wk") auto
    have "run_loop env ?ss (?core0, w, []) =
        (False, ?core0\<lparr>internal := Some e\<rparr>, w2,
         map (\<lambda>s. Call IsProcessed s None) ?pre @ [Call IsProcessed (?ss ! k) (Some e)])"
      by (subst split) (simp add: run_loop_append pre p checkIf_simps)
    then show ?thesis by (simp add: Run_def p)
  qed
  have complete: "fst (Run env core w) = None \<and>
      (\<exists>x. fst (snd (Run env core w)) = core\<lparr>internal := x, state := Idle States\<rparr>) \<and>
      state (fst (snd (Run env core w))) = Idle States \<and>
      fst (snd (snd (Run env core w))) = fold (processed env ?q) ?ss w \<and>
      snd (snd (snd (Run env core w))) = map (\<lambda>s. Call IsProcessed s None) ?ss"
    if "k = length ?ss"
    using pre that by (auto simp: Run_def)
  from abort complete show ?thesis by blast
qed

theorem Run_aborts_at_first_failing_Process_witness:
  "1 \<le> length (services abc_core) \<and>
   fst (service_Process stub_env svcA ()) = None \<and>
   fst (service_Process stub_env svcB ()) = Some ''b: process failed'' \<and>
   Run stub_env abc_core () =
     (Some ''b: process failed'',
      abc_core\<lparr>internal := Some ''b: process failed'', state := Working States\<rparr>, (),
      [Call IsProcessed svcA None, Call IsProcessed svcB (Some ''b: process failed'')])"
proof -
  have k: "1 \<le> length (services abc_core)" by (simp add: abc_core_def)
  have before: "\<forall>i<1. fst (service_Process stub_env (services abc_core ! i)
      (fold (processed stub_env (notifications abc_core)) (take i (services abc_core)) ())) = None"
    by (simp add: abc_core_def stub_defs)
  have at: "1 < length (services abc_core) \<and>
      fst (service_Process stub_env (services abc_core ! 1)
        (fold (processed stub_env (notifications abc_core)) (take 1 (services abc_core)) ())) =
      Some ''b: process failed''"
    by (simp add: abc_core_def stub_defs)
  from Run_aborts_at_first_failing_Process[OF k before, of "''b: process failed''"] at
  have "Run stub_env abc_core () =
     (Some ''b: process failed'',
      abc_core\<lparr>internal := Some ''b: process failed'', state := Working States\<rparr>,
      snd (service_Process stub_env (services abc_core ! 1)
        (fold (processed stub_env (notifications abc_core)) (take 1 (services abc_core)) ())),
      map (\<lambda>s. Call IsProcessed s None) (take 1 (services abc_core)) @
        [Call IsProcessed (services abc_core ! 1) (Some ''b: process failed'')])"
    by blast
  then show ?thesis
    by (simp add: abc_core_def stub_defs)
qed

text \<open>
  C2: let the Stop hooks of the first \<open>k\<close> services fail, each called in the world left
  by the hooks before it. If the hook of the service at index \<open>k\<close> then reports success,
  Stop returns what that hook returned, at once: the world is the one that hook left,
  no later hook is called, and the state is left as it was. If all hooks fail (\<open>k\<close>
  is the length of the list), every hook was called once in list order, the state is
  Stopped and Stop returns nil.
\<close>

theorem Stop_aborts_at_first_succeeding_Stop:
  assumes "k \<le> length (services core)"
      and "\<forall>i<k. fst (service_Stop env (services core ! i)
                      (fold (stopped env) (take i (services core)) w)) \<noteq> None"
  shows "(k < length (services core) \<and>
          fst (service_Stop env (services core ! k)
                 (fold (stopped env) (take k (services core)) w)) = None \<longrightarrow>
            Stop env core w =
              (fst (service_Stop env (services core ! k) (fold (stopped env) (take k (services core)) w)),
               core\<lparr>internal := None\<rparr>,
               snd (service_Stop env (services core ! k) (fold (stopped env) (take k (services core)) w)),
               stop_calls env (services core) w k @ [Call IsStopped (services core ! k) None]) \<and>
            state (fst (snd (Stop env core w))) = state core) \<and>
         (k = length (services core) \<longrightarrow>
            fst (Stop env core w) = None \<and>
            (\<exists>x. fst (snd (Stop env core w)) = core\<lparr>internal := x, state := Stopped States\<rparr>) \<and>
            state (fst (snd (Stop env core w))) = Stopped States \<and>
            fst (snd (snd (Stop env core w))) = fold (stopped env) (services core) w \<and>
            snd (snd (snd (Stop env core w))) = stop_calls env (services core) w (length (services core)))"
proof -
  let ?ss = "services core"
  let ?pre = "take k ?ss"
  let ?wk = "fold (stopped env) ?pre w"
  have "\<forall>i<length ?pre. fst (service_Stop env (?pre ! i) (fold (stopped env) (take i ?pre) w)) \<noteq> None"
    using assms by (simp add: min_absorb2)
  from stop_loop_all_fail[OF this, of core "[]"] stop_calls_take[OF assms(1), of env w]
  obtain x where pre:
    "stop_loop env ?pre (core, w, []) = (True, core\<lparr>internal := x\<rparr>, ?wk, stop_calls env ?ss w k)"
    using assms(1) by (auto simp: min_absorb2)
  have abort: "Stop env core w =
      (fst (service_Stop env (?ss ! k) ?wk), core\<lparr>internal := None\<rparr>,
       snd (service_Stop env (?ss ! k) ?wk),
       stop_calls env ?ss w k @ [Call IsStopped (?ss ! k) None]) \<and>
      state (fst (snd (Stop env core w))) = state core"
    if k: "k < length ?ss" and e: "fst (service_Stop env (?ss ! k) ?wk) = None"
  proof -
    from k have split: "?ss = ?pre @ (?ss ! k) # drop (Suc k) ?ss"
      by (rule id_take_nth_drop)
    obtain w2 where p: "service_Stop env (?ss ! k) ?wk = (None, w2)"
      using e by (cases "service_Stop env (?ss ! k) ?wk") auto
    have "stop_loop env ?ss (core, w, []) =
        (False, core\<lparr>internal := None\<rparr>, w2,
         stop_calls env ?ss w k @ [Call IsStopped (?ss ! k) None])"
      by (subst split) (simp add: stop_loop_append pre p checkIf_simps)
    then show ?thesis by (simp add: Stop_def p)
  qed
  have complete: "fst (Stop env core w) = None \<and>
      (\<exists>x. fst (snd (Stop env core w)) = core\<lparr>internal := x, state := Stopped States\<rparr>) \<and>
      state (fst (snd (Stop env core w))) = Stopped States \<and>
      fst (snd (snd (Stop env core w))) = fold (stopped env) ?ss w \<and>
      snd (snd (snd (Stop env core w))) = stop_calls env ?ss w (length ?ss)"
    if "k = length ?ss"
    using pre that by (auto simp: Stop_def)
  from abort complete show ?thesis by blast
qed

theorem Stop_aborts_at_first_succeeding_Stop_witness:
  "1 \<le> length (services abc_core) \<and>
   fst (service_Stop stub_env svcA ()) = Some ''a: stop failed'' \<and>
   fst (service_Stop stub_env svcB ()) = None \<and>
   Stop stub_env abc_core () =
     (None, abc_core\<lparr>internal := None\<rparr>, (),
      [Call IsStopped svcA (Some ''a: stop failed''), Call IsStopped svcB None])"
proof -
  have k: "1 \<le> length (services abc_core)" by (simp add: abc_core_def)
  have before: "\<forall>i<1. fst (service_Stop stub_env (services abc_core ! i)
      (fold (stopped stub_env) (take i (services abc_core)) ())) \<noteq> None"
    by (simp add: abc_core_def stub_defs)
  have at: "1 < length (services abc_core) \<and>
      fst (service_Stop stub_env (services abc_core ! 1)
        (fold (stopped stub_env) (take 1 (services abc_core)) ())) = None"
    by (simp add: abc_core_def stub_defs)
  from Stop_aborts_at_first_succeeding_Stop[OF k before] at
  have "Stop stub_env abc_core () =
     (fst (service_Stop stub_env (services abc_core ! 1)
        (fold (stopped stub_env) (take 1 (services abc_core)) ())),
      abc_core\<lparr>internal := None\<rparr>,
      snd (service_Stop stub_env (services abc_core ! 1)
        (fold (stopped stub_env) (take 1 (services abc_core)) ())),
      stop_calls stub_env (services abc_core) () 1 @ [Call IsStopped (services abc_core ! 1) None])"
    by blast
  then show ?thesis
    by (simp add: abc_core_def stub_defs stop_calls_def)
qed

text \<open>
  C10, as amended: on a new kernel, and after any sequence of Configure and Stop
  calls that all returned an error and no Run call, State returns the zero value,
  which is none of the five named states.
\<close>

theorem State_zero_until_first_transition:
  assumes "api_calls env cs (new_core, w) = (rets, core', w')"
      and "CallRun \<notin> set cs" and "\<forall>r\<in>set rets. r \<noteq> None"
  shows "State core' = 0 \<and>
         State core' \<notin> {Started States, Idle States, Working States, Stopped States, Panic States}"
  using api_calls_state[OF assms] by (simp add: State_def new_core_def States_def)

theorem State_zero_until_first_transition_witness:
  "api_calls stub_env [CallConfigure [svcD] \<lparr>IsLoaded = True\<rparr> 0,
                       CallConfigure [svcD] \<lparr>IsLoaded = False\<rparr> 0] (new_core, ()) =
     ([Some ''d: start failed'', Some ''properties not loaded''],
      \<lparr>services = [svcD], logger = Some 0, properties = None, notifications = Some 0,
        internal = Some ''d: start failed'', state = 0\<rparr>, ()) \<and>
   CallRun \<notin> set [CallConfigure [svcD] \<lparr>IsLoaded = True\<rparr> 0,
                   CallConfigure [svcD] \<lparr>IsLoaded = False\<rparr> 0] \<and>
   State \<lparr>services = [svcD], logger = Some 0, properties = None, notifications = Some 0,
        internal = Some ''d: start failed'', state = 0\<rparr> = 0 \<and>
   State (new_core :: stub core) = 0"
proof -
  have norun: "CallRun \<notin> set [CallConfigure [svcD] \<lparr>IsLoaded = True\<rparr> 0,
                   CallConfigure [svcD] \<lparr>IsLoaded = False\<rparr> 0]" by simp
  have failed: "\<forall>r\<in>set [Some ''d: start failed'', Some ''properties not loaded'']. r \<noteq> None" by simp
  have fresh: "api_calls stub_env [] (new_core, ()) = ([], new_core, ())" by simp
  from State_zero_until_first_transition[OF failing_calls norun failed]
    State_zero_until_first_transition[OF fresh] failing_calls norun
  show ?thesis by simp
qed

text \<open>
  C10 as stated also covers a Run call that fails. After a Configure that fails at
  the Start hook of its service (the service list is stored before the hooks are
  called) and a Run that fails at the Process hook, no call has succeeded and State
  returns Working.
\<close>

theorem State_nonzero_after_failed_Run:
  "fst (api_calls stub_env [CallConfigure [svcD] \<lparr>IsLoaded = True\<rparr> 0, CallRun] (new_core, ())) =
     [Some ''d: start failed'', Some ''d: process failed''] \<and>
   State (fst (snd (api_calls stub_env [CallConfigure [svcD] \<lparr>IsLoaded = True\<rparr> 0, CallRun] (new_core, ())))) =
     Working States \<and>
   State (fst (snd (api_calls stub_env [CallConfigure [svcD] \<lparr>IsLoaded = True\<rparr> 0, CallRun] (new_core, ())))) \<noteq> 0"
  by (simp add: Configure_def Run_def State_def stub_defs)

section \<open>The routing of notifications\<close>

text \<open>
  C7: for a notification from the module or the core identity, the routing makes
  exactly one Publish call, on "Command" for a command object, on "Data" for a data
  object and on "Error" for an error object, and logs no warning; for any other
  content it makes no Publish call, logs one warning and returns nil.
\<close>

theorem handle_routes_by_content_type:
  assumes "From n = Services_Module names \<or> From n = Core names"
  shows "(\<forall>x. Content n = CommandObject x \<longrightarrow>
            handle names service n =
              (if registered service ''Command'' then None else Some ''failed to emit message'',
               service\<lparr>logged := logged service @
                          [(DebugLevel, More DebugNotificationHandled ''notification'' (LoggedNotification n))],
                        published := published service @ [(''Command'', CommandObject x)]\<rparr>)) \<and>
         (\<forall>x. Content n = DataObject x \<longrightarrow>
            handle names service n =
              (if registered service ''Data'' then None else Some ''failed to emit message'',
               service\<lparr>logged := logged service @
                          [(DebugLevel, More DebugNotificationHandled ''notification'' (LoggedNotification n))],
                        published := published service @ [(''Data'', DataObject x)]\<rparr>)) \<and>
         (\<forall>x. Content n = ErrorObject x \<longrightarrow>
            handle names service n =
              (if registered service ''Error'' then None else Some ''failed to emit message'',
               service\<lparr>logged := logged service @
                          [(DebugLevel, More DebugNotificationHandled ''notification'' (LoggedNotification n))],
                        published := published service @ [(''Error'', ErrorObject x)]\<rparr>)) \<and>
         (\<forall>x. Content n = UnknownObject x \<longrightarrow>
            handle names service n =
              (None,
               service\<lparr>logged := logged service @
                          [(DebugLevel, More DebugNotificationHandled ''notification'' (LoggedNotification n)),
                           (WarnLevel, More UnknownContentType ''packet'' (LoggedContent (UnknownObject x)))]\<rparr>) \<and>
            published (snd (handle names service n)) = published service \<and>
            warnings (snd (handle names service n)) =
              warnings service @ [(WarnLevel, More UnknownContentType ''packet'' (LoggedContent (UnknownObject x)))])"
  using assms
  by (auto simp: handle_def defaultNotificationHandler_def emit_def logger_Debug_def logger_Warn_def
        Channels_Command_def Channels_Data_def Channels_Error_def warnings_def)

theorem handle_routes_by_content_type_witness:
  "From \<lparr>From = ''core'', Content = DataObject ''d''\<rparr> = Core demo_names \<and>
   published (snd (handle demo_names demo_service \<lparr>From = ''core'', Content = DataObject ''d''\<rparr>)) =
     [(''Data'', DataObject ''d'')] \<and>
   fst (handle demo_names demo_service \<lparr>From = ''core'', Content = DataObject ''d''\<rparr>) = None \<and>
   published (snd (handle demo_names demo_service \<lparr>From = ''module'', Content = CommandObject ''c''\<rparr>)) =
     [(''Command'', CommandObject ''c'')] \<and>
   fst (handle demo_names demo_service \<lparr>From = ''module'', Content = CommandObject ''c''\<rparr>) =
     Some ''failed to emit message'' \<and>
   published (snd (handle demo_names demo_service \<lparr>From = ''core'', Content = UnknownObject ''u''\<rparr>)) = [] \<and>
   length (warnings (snd (handle demo_names demo_service \<lparr>From = ''core'', Content = UnknownObject ''u''\<rparr>))) = 1 \<and>
   fst (handle demo_names demo_service \<lparr>From = ''core'', Content = UnknownObject ''u''\<rparr>) = None"
proof -
  have core: "From \<lparr>From = ''core'', Content = c\<rparr> = Services_Module demo_names \<or>
              From \<lparr>From = ''core'', Content = c\<rparr> = Core demo_names" for c
    by (simp add: demo_names_def)
  have module: "From \<lparr>From = ''module'', Content = c\<rparr> = Services_Module demo_names \<or>
              From \<lparr>From = ''module'', Content = c\<rparr> = Core demo_names" for c
    by (simp add: demo_names_def)
  show ?thesis
    using handle_routes_by_content_type[OF core, of "DataObject ''d''" demo_service]
      handle_routes_by_content_type[OF module, of "CommandObject ''c''" demo_service]
      handle_routes_by_content_type[OF core, of "UnknownObject ''u''" demo_service]
    by (simp add: demo_names_def demo_service_def warnings_def)
qed

text \<open>
  C8: a notification from any other identity is logged as unhandled (one warning after
  the debug entry) and dropped: no Publish call, and the handler returns nil.
\<close>

theorem handle_drops_unrecognized_origin:
  assumes "From n \<noteq> Services_Module names" and "From n \<noteq> Core names"
  shows "handle names service n =
           (None,
            service\<lparr>logged := logged service @
                       [(DebugLevel, More DebugNotificationHandled ''notification'' (LoggedNotification n)),
                        (WarnLevel, More (Bind UnhandledNotificationOrigin [From n]) ''content''
                                      (LoggedContent (Content n)))]\<rparr>) \<and>
         published (snd (handle names service n)) = published service"
  using assms by (simp add: handle_def logger_Debug_def logger_Warn_def)

theorem handle_drops_unrecognized_origin_witness:
  "From \<lparr>From = ''gpio'', Content = DataObject ''d''\<rparr> \<noteq> Services_Module demo_names \<and>
   From \<lparr>From = ''gpio'', Content = DataObject ''d''\<rparr> \<noteq> Core demo_names \<and>
   fst (handle demo_names demo_service \<lparr>From = ''gpio'', Content = DataObject ''d''\<rparr>) = None \<and>
   published (snd (handle demo_names demo_service \<lparr>From = ''gpio'', Content = DataObject ''d''\<rparr>)) = [] \<and>
   map fst (logged (snd (handle demo_names demo_service \<lparr>From = ''gpio'', Content = DataObject ''d''\<rparr>))) =
     [DebugLevel, WarnLevel]"
proof -
  have a: "From \<lparr>From = ''gpio'', Content = DataObject ''d''\<rparr> \<noteq> Services_Module demo_names"
    and b: "From \<lparr>From = ''gpio'', Content = DataObject ''d''\<rparr> \<noteq> Core demo_names"
    by (simp_all add: demo_names_def)
  show ?thesis
    using a b handle_drops_unrecognized_origin[OF a b, of demo_service]
    by (simp add: demo_service_def)
qed

end
